theory Spec2Isabelle
  imports Main
begin

section \<open>Strings, characters and the Python built-ins the code calls\<close>

text \<open>
  A Python \<open>str\<close> is a sequence of Unicode code points and \<open>len\<close> counts code points,
  so a string is a list of code points (natural numbers). ASCII literals are written
  through \<open>ustr\<close>; Japanese literals are written as code-point lists, with the text of
  the source in a comment.
\<close>

type_synonym uchar = nat
type_synonym ustring = "nat list"

definition ustr :: "string \<Rightarrow> ustring" where
  "ustr s = map of_char s"

text \<open>
  The Python built-ins \<open>str.isdigit\<close>, \<open>str.isalpha\<close>, \<open>str.lower\<close>, \<open>str.upper\<close>,
  the regular-expression class \<open>\d\<close> and \<open>int\<close> on a string consult the Unicode
  character database, which is no part of the repository. The functions below take
  these tables as a parameter \<open>U\<close>, so that every theorem stated for an arbitrary \<open>U\<close>
  holds for Python's tables; \<open>ascii_db\<close> is the instance used for evaluation, and it
  agrees with Python on every code point below 128 and on kana and CJK ideographs
  (none of which is a digit or has a case).
\<close>

record unicode_db =
  isdigit :: "uchar \<Rightarrow> bool"
  isalpha :: "uchar \<Rightarrow> bool"
  lower :: "uchar \<Rightarrow> ustring"
  upper :: "uchar \<Rightarrow> ustring"
  isdecimal :: "uchar \<Rightarrow> bool"
  decimal_value :: "uchar \<Rightarrow> nat"
  int_of_str :: "ustring \<Rightarrow> int option"

definition ascii_isdigit :: "uchar \<Rightarrow> bool" where
  "ascii_isdigit c = (48 \<le> c \<and> c \<le> 57)"

definition ascii_isalpha :: "uchar \<Rightarrow> bool" where
  "ascii_isalpha c = ((65 \<le> c \<and> c \<le> 90) \<or> (97 \<le> c \<and> c \<le> 122))"

definition ascii_lower :: "uchar \<Rightarrow> ustring" where
  "ascii_lower c = (if 65 \<le> c \<and> c \<le> 90 then [c + 32] else [c])"

definition ascii_upper :: "uchar \<Rightarrow> ustring" where
  "ascii_upper c = (if 97 \<le> c \<and> c \<le> 122 then [c - 32] else [c])"

fun digits_value :: "nat \<Rightarrow> ustring \<Rightarrow> nat" where
  "digits_value acc [] = acc"
| "digits_value acc (c # cs) = digits_value (acc * 10 + (c - 48)) cs"

definition ascii_int_of_str :: "ustring \<Rightarrow> int option" where
  "ascii_int_of_str s =
     (if s \<noteq> [] \<and> list_all ascii_isdigit s then Some (int (digits_value 0 s))
      else if 2 \<le> length s \<and> hd s = 45 \<and> list_all ascii_isdigit (tl s)
        then Some (- int (digits_value 0 (tl s)))
      else None)"

definition ascii_db :: unicode_db where
  "ascii_db = \<lparr> isdigit = ascii_isdigit, isalpha = ascii_isalpha,
      lower = ascii_lower, upper = ascii_upper,
      isdecimal = ascii_isdigit, decimal_value = (\<lambda>c. c - 48),
      int_of_str = ascii_int_of_str \<rparr>"

text \<open>\<open>str.lower\<close> on a whole string.\<close>

definition str_lower :: "unicode_db \<Rightarrow> ustring \<Rightarrow> ustring" where
  "str_lower U s = concat (map (lower U) s)"

text \<open>\<open>str.join\<close>, \<open>str.split\<close> on a one-character separator, \<open>str.replace\<close> of a
  one-character string by the empty string, and \<open>str.startswith\<close>.\<close>

fun join :: "ustring \<Rightarrow> ustring list \<Rightarrow> ustring" where
  "join sep [] = []"
| "join sep [x] = x"
| "join sep (x # y # ys) = x @ sep @ join sep (y # ys)"

fun split_on :: "uchar \<Rightarrow> ustring \<Rightarrow> ustring list" where
  "split_on d [] = [[]]"
| "split_on d (c # cs) =
     (if c = d then [] # split_on d cs
      else (case split_on d cs of [] \<Rightarrow> [[c]] | p # ps \<Rightarrow> (c # p) # ps))"

definition remove_char :: "uchar \<Rightarrow> ustring \<Rightarrow> ustring" where
  "remove_char d s = filter (\<lambda>c. c \<noteq> d) s"

definition startswith :: "ustring \<Rightarrow> ustring \<Rightarrow> bool" where
  "startswith s p = (take (length p) s = p)"

text \<open>The last \<open>n\<close> characters \<open>s[-n:]\<close> and all but the last \<open>n\<close>, \<open>s[:-n]\<close>, for \<open>n > 0\<close>.\<close>

definition last_n :: "nat \<Rightarrow> ustring \<Rightarrow> ustring" where
  "last_n n s = drop (length s - n) s"

definition but_last_n :: "nat \<Rightarrow> ustring \<Rightarrow> ustring" where
  "but_last_n n s = take (length s - n) s"

section \<open>A model of \<open>re.match\<close>\<close>

text \<open>
  The code builds pattern strings and hands them to Python's \<open>re.match\<close>. The model
  parses the pattern string into a syntax tree and matches it by backtracking in
  Python's order of preference: alternatives left to right, quantifiers greedy.
  The matcher returns every way to match in that order; \<open>re.match\<close> takes the first.
  The parser covers the syntax the code can generate: literals, \<open>.\<close>, \<open>^\<close>, \<open>$\<close>,
  groups \<open>( )\<close> and \<open>(?: )\<close>, \<open>|\<close>, the quantifiers \<open>*\<close> \<open>+\<close> \<open>?\<close> on one atom,
  an escaped punctuation character and a character class of plain characters.
  A quantifier with nothing to repeat or an unbalanced parenthesis is the error that
  \<open>re\<close> raises; the parser also refuses what it does not cover.
  The patterns that the code compiles once (\<open>Term.PATTERNS\<close>, \<open>Dictionary.PATTERNS\<close>)
  are written as syntax trees; they need four more constructs: a negated class
  \<open>[^...]\<close> (\<open>RNSet\<close>), a class given by a predicate such as \<open>\d\<close> (\<open>RPred\<close>), the
  negative look-behind \<open>(?<!c)\<close> on one character (\<open>RNotAfter\<close>) and the lazy
  quantifier \<open>+?\<close> (\<open>RLazyPlus\<close>).
\<close>

datatype rx =
    RLit uchar
  | RAny
  | RSet "uchar list"
  | RBol
  | REol
  | RSeq rx rx
  | REps
  | RAlt rx rx
  | RStar rx
  | RPlus rx
  | ROpt rx
  | RGrp nat rx
  | RNSet "uchar list"
  | RPred "uchar \<Rightarrow> bool"
  | RNotAfter uchar
  | RLazyPlus rx

text \<open>A frame of the parser: the group being read (its capture number, if it
  captures), the alternatives finished so far, the items of the current alternative in
  reverse, and whether the last item may take a quantifier.\<close>

record frame =
  f_cap :: "nat option"
  f_alts :: "rx list"
  f_items :: "rx list"
  f_quant :: bool

datatype pmode = PNormal | PEscape | POpen | POpenQ | PClass "uchar list"

record pstate =
  p_stack :: "frame list"
  p_mode :: pmode
  p_groups :: nat

fun seq_of :: "rx list \<Rightarrow> rx" where
  "seq_of [] = REps"
| "seq_of [r] = r"
| "seq_of (r # rs) = RSeq r (seq_of rs)"

fun alt_of :: "rx list \<Rightarrow> rx" where
  "alt_of [] = REps"
| "alt_of [r] = r"
| "alt_of (r # rs) = RAlt r (alt_of rs)"

definition frame_rx :: "frame \<Rightarrow> rx" where
  "frame_rx f = alt_of (f_alts f @ [seq_of (rev (f_items f))])"

definition new_frame :: "nat option \<Rightarrow> frame" where
  "new_frame c = \<lparr> f_cap = c, f_alts = [], f_items = [], f_quant = False \<rparr>"

definition push_item :: "rx \<Rightarrow> bool \<Rightarrow> pstate \<Rightarrow> pstate option" where
  "push_item r q st =
     (case p_stack st of
        [] \<Rightarrow> None
      | f # fs \<Rightarrow> Some (st \<lparr> p_stack := f \<lparr> f_items := r # f_items f, f_quant := q \<rparr> # fs,
                              p_mode := PNormal \<rparr>))"

definition apply_quant :: "(rx \<Rightarrow> rx) \<Rightarrow> pstate \<Rightarrow> pstate option" where
  "apply_quant q st =
     (case p_stack st of
        [] \<Rightarrow> None
      | f # fs \<Rightarrow>
          (case f_items f of
             [] \<Rightarrow> None
           | r # rs \<Rightarrow>
               if f_quant f
               then Some (st \<lparr> p_stack := f \<lparr> f_items := q r # rs, f_quant := False \<rparr> # fs \<rparr>)
               else None))"

definition is_ascii_alnum :: "uchar \<Rightarrow> bool" where
  "is_ascii_alnum c = ((48 \<le> c \<and> c \<le> 57) \<or> (65 \<le> c \<and> c \<le> 90) \<or> (97 \<le> c \<and> c \<le> 122))"

definition close_group :: "pstate \<Rightarrow> pstate option" where
  "close_group st =
     (case p_stack st of
        f # g # fs \<Rightarrow>
          (let body = frame_rx f;
               r = (case f_cap f of None \<Rightarrow> body | Some n \<Rightarrow> RGrp n body)
           in Some (st \<lparr> p_stack := g \<lparr> f_items := r # f_items g, f_quant := True \<rparr> # fs \<rparr>))
      | _ \<Rightarrow> None)"

definition open_group :: "bool \<Rightarrow> pstate \<Rightarrow> pstate" where
  "open_group capturing st =
     (if capturing
      then st \<lparr> p_stack := new_frame (Some (Suc (p_groups st))) # p_stack st,
                p_mode := PNormal, p_groups := Suc (p_groups st) \<rparr>
      else st \<lparr> p_stack := new_frame None # p_stack st, p_mode := PNormal \<rparr>)"

definition normal_step :: "pstate \<Rightarrow> uchar \<Rightarrow> pstate option" where
  "normal_step st c =
     (if c = 92 then Some (st \<lparr> p_mode := PEscape \<rparr>)
      else if c = 40 then Some (st \<lparr> p_mode := POpen \<rparr>)
      else if c = 41 then close_group st
      else if c = 91 then Some (st \<lparr> p_mode := PClass [] \<rparr>)
      else if c = 124 then
        (case p_stack st of
           [] \<Rightarrow> None
         | f # fs \<Rightarrow> Some (st \<lparr> p_stack := f \<lparr> f_alts := f_alts f @ [seq_of (rev (f_items f))],
                                               f_items := [], f_quant := False \<rparr> # fs \<rparr>))
      else if c = 42 then apply_quant RStar st
      else if c = 43 then apply_quant RPlus st
      else if c = 63 then apply_quant ROpt st
      else if c = 46 then push_item RAny True st
      else if c = 94 then push_item RBol False st
      else if c = 36 then push_item REol False st
      else if c = 123 \<or> c = 125 \<or> c = 93 then None
      else push_item (RLit c) True st)"

fun parse_step :: "pstate \<Rightarrow> uchar \<Rightarrow> pstate option" where
  "parse_step st c =
     (case p_mode st of
        PNormal \<Rightarrow> normal_step st c
      | PEscape \<Rightarrow> (if is_ascii_alnum c then None else push_item (RLit c) True st)
      | POpen \<Rightarrow> (if c = 63 then Some (st \<lparr> p_mode := POpenQ \<rparr>)
                   else normal_step (open_group True st) c)
      | POpenQ \<Rightarrow> (if c = 58 then Some (open_group False st) else None)
      | PClass cs \<Rightarrow>
          (if c = 93 then (if cs = [] then None else push_item (RSet cs) True st)
           else if c = 92 \<or> c = 91 \<or> c = 45 \<or> c = 94 then None
           else Some (st \<lparr> p_mode := PClass (cs @ [c]) \<rparr>)))"

fun parse_chars :: "pstate \<Rightarrow> ustring \<Rightarrow> pstate option" where
  "parse_chars st [] = Some st"
| "parse_chars st (c # cs) =
     (case parse_step st c of None \<Rightarrow> None | Some st' \<Rightarrow> parse_chars st' cs)"

definition parse_rx :: "ustring \<Rightarrow> rx option" where
  "parse_rx p =
     (case parse_chars \<lparr> p_stack = [new_frame None], p_mode = PNormal, p_groups = 0 \<rparr> p of
        None \<Rightarrow> None
      | Some st \<Rightarrow>
          (case (p_stack st, p_mode st) of
             ([f], PNormal) \<Rightarrow> Some (frame_rx f)
           | _ \<Rightarrow> None))"

text \<open>The matcher's state: how many characters were consumed, the rest of the input,
  and the captured groups (the latest capture of a group first).\<close>

type_synonym mstate = "nat \<times> ustring \<times> (nat \<times> ustring) list"

primrec iter_star :: "nat \<Rightarrow> (mstate \<Rightarrow> mstate list) \<Rightarrow> mstate \<Rightarrow> mstate list" where
  "iter_star 0 f s = [s]"
| "iter_star (Suc n) f s =
     concat (map (iter_star n f) (filter (\<lambda>s'. fst s < fst s') (f s))) @ [s]"

primrec iter_lazy :: "nat \<Rightarrow> (mstate \<Rightarrow> mstate list) \<Rightarrow> mstate \<Rightarrow> mstate list" where
  "iter_lazy 0 f s = [s]"
| "iter_lazy (Suc n) f s =
     s # concat (map (iter_lazy n f) (filter (\<lambda>s'. fst s < fst s') (f s)))"

definition capture :: "nat \<Rightarrow> mstate \<Rightarrow> mstate \<Rightarrow> mstate" where
  "capture n s s' =
     (case s of (pos, rest, _) \<Rightarrow>
        (case s' of (pos', rest', caps') \<Rightarrow>
           (pos', rest', (n, take (pos' - pos) rest) # caps')))"

fun one_char :: "(uchar \<Rightarrow> bool) \<Rightarrow> mstate \<Rightarrow> mstate list" where
  "one_char P (pos, [], caps) = []"
| "one_char P (pos, c # cs, caps) = (if P c then [(Suc pos, cs, caps)] else [])"

text \<open>\<open>rmatch subject r s\<close>: the ways to match \<open>r\<close> from the state \<open>s\<close>; the whole subject
  string is at hand for the look-behind.\<close>

primrec rmatch :: "ustring \<Rightarrow> rx \<Rightarrow> mstate \<Rightarrow> mstate list" where
  "rmatch subject (RLit c) s = one_char (\<lambda>d. d = c) s"
| "rmatch subject RAny s = one_char (\<lambda>d. d \<noteq> 10) s"
| "rmatch subject (RSet cs) s = one_char (\<lambda>d. d \<in> set cs) s"
| "rmatch subject RBol s = (if fst s = 0 then [s] else [])"
| "rmatch subject REol s = (if fst (snd s) = [] \<or> fst (snd s) = [10] then [s] else [])"
| "rmatch subject (RSeq a b) s = concat (map (rmatch subject b) (rmatch subject a s))"
| "rmatch subject REps s = [s]"
| "rmatch subject (RAlt a b) s = rmatch subject a s @ rmatch subject b s"
| "rmatch subject (RStar r) s = iter_star (length (fst (snd s))) (rmatch subject r) s"
| "rmatch subject (RPlus r) s =
     concat (map (\<lambda>s'. iter_star (length (fst (snd s'))) (rmatch subject r) s')
       (rmatch subject r s))"
| "rmatch subject (ROpt r) s = rmatch subject r s @ [s]"
| "rmatch subject (RGrp n r) s = map (capture n s) (rmatch subject r s)"
| "rmatch subject (RNSet cs) s = one_char (\<lambda>d. d \<notin> set cs) s"
| "rmatch subject (RPred P) s = one_char P s"
| "rmatch subject (RNotAfter c) s =
     (if 0 < fst s \<and> subject ! (fst s - 1) = c then [] else [s])"
| "rmatch subject (RLazyPlus r) s =
     concat (map (\<lambda>s'. iter_lazy (length (fst (snd s'))) (rmatch subject r) s')
       (rmatch subject r s))"

text \<open>
  The result of \<open>re.match\<close>: the error \<open>re.error\<close> for a pattern that does not parse,
  \<open>None\<close> when nothing matches, or the captured groups: \<open>group i\<close> looks one up.
\<close>

datatype error =
    ValueError
  | TypeError
  | IndexError
  | ReError
  | AutoDivisionDisabledError
  | AutoDivisionChoiceOverflowError
  | MultipleGobiError
  | KeyError
  | OverflowError

type_synonym match = "(nat \<times> ustring) list"

definition re_match :: "ustring \<Rightarrow> ustring \<Rightarrow> error + match option" where
  "re_match p s =
     (case parse_rx p of
        None \<Rightarrow> Inl ReError
      | Some r \<Rightarrow>
          (case rmatch s r (0, s, []) of
             [] \<Rightarrow> Inr None
           | (_, _, caps) # _ \<Rightarrow> Inr (Some caps)))"

text \<open>\<open>re.match\<close> with a compiled pattern.\<close>

definition rx_match :: "rx \<Rightarrow> ustring \<Rightarrow> match option" where
  "rx_match r s =
     (case rmatch s r (0, s, []) of
        [] \<Rightarrow> None
      | (_, _, caps) # _ \<Rightarrow> Some caps)"

definition group :: "match \<Rightarrow> nat \<Rightarrow> ustring" where
  "group m i = (case map_of m i of None \<Rightarrow> [] | Some g \<Rightarrow> g)"

text \<open>\<open>lastindex\<close>, for the flat patterns of the code whose groups all take part:
  the largest group number matched, \<open>None\<close> when there is no group.\<close>

definition lastindex :: "match \<Rightarrow> nat option" where
  "lastindex m = (if m = [] then None else Some (Max (set (map fst m))))"

section \<open>Characters of the Japanese charset\<close>

definition is_hiragana :: "uchar \<Rightarrow> bool" where
  "is_hiragana c = (12353 \<le> c \<and> c \<le> 12436)"

definition is_katakana :: "uchar \<Rightarrow> bool" where
  "is_katakana c = ((12449 \<le> c \<and> c \<le> 12538) \<or> c = 12540)"

definition is_kana :: "uchar \<Rightarrow> bool" where
  "is_kana c = (is_hiragana c \<or> is_katakana c)"

definition is_cjk_unified :: "uchar \<Rightarrow> bool" where
  "is_cjk_unified code =
     ((0x4E00 \<le> code \<and> code \<le> 0x9FFF) \<or>
      (0x3400 \<le> code \<and> code \<le> 0x4DBF) \<or>
      (0x20000 \<le> code \<and> code \<le> 0x2A6DF) \<or>
      (0x2A700 \<le> code \<and> code \<le> 0x2B73F) \<or>
      (0x2B740 \<le> code \<and> code \<le> 0x2B81F) \<or>
      (0x2B820 \<le> code \<and> code \<le> 0x2CEAF) \<or>
      (0x2CEB0 \<le> code \<and> code \<le> 0x2EBEF) \<or>
      (0x30000 \<le> code \<and> code \<le> 0x3134F) \<or>
      (0x31350 \<le> code \<and> code \<le> 0x323AF) \<or>
      (0x2EBF0 \<le> code \<and> code \<le> 0x2EE5F) \<or>
      code = 0x3005)"

text \<open>\<open>Term.is_jp_str\<close>: CJK ideographs, kana, digits and the characters \<open>. - +\<close>.\<close>

definition is_jp_char :: "unicode_db \<Rightarrow> uchar \<Rightarrow> bool" where
  "is_jp_char U c = (is_cjk_unified c \<or> is_kana c \<or> isdigit U c \<or> c \<in> set (ustr ''.-+''))"

definition is_jp_str :: "unicode_db \<Rightarrow> ustring \<Rightarrow> bool" where
  "is_jp_str U s = list_all (is_jp_char U) s"

text \<open>\<open>Term.is_jp_valid_str\<close>: the same, with the separators \<open>/ \ *\<close> allowed.\<close>

definition is_jp_valid_str :: "unicode_db \<Rightarrow> ustring \<Rightarrow> bool" where
  "is_jp_valid_str U s = list_all (\<lambda>c. is_jp_char U c \<or> c \<in> {47, 92, 42}) s"

section \<open>The eight type labels\<close>

text \<open>The type of a term is a Python string; the code compares it with eight
  literals. In source order of \<open>re_pattern\<close>: meishi (noun), koyuu (proper noun),
  godan, jouge (ichidan), sahen, kahen, keiyou (adjective), eigo (English).\<close>

definition ty_meishi :: ustring where "ty_meishi = [21517, 35422]"
definition ty_koyuu :: ustring where "ty_koyuu = [22266, 26377]"
definition ty_godan :: ustring where "ty_godan = [20116, 27573]"
definition ty_jouge :: ustring where "ty_jouge = [19978, 19979]"
definition ty_sahen :: ustring where "ty_sahen = [12469, 22793]"
definition ty_kahen :: ustring where "ty_kahen = [12459, 22793]"
definition ty_keiyou :: ustring where "ty_keiyou = [24418, 23481]"
definition ty_eigo :: ustring where "ty_eigo = [33521, 35486]"

text \<open>The nine endings of a godan verb (u ku gu su tsu nu bu mu ru), the endings
  \<open>ru\<close>, \<open>suru\<close>, \<open>i\<close>, and the kahen verb \<open>kuru\<close> in kanji and in kana.\<close>

definition gobi_list :: "ustring list" where
  "gobi_list = [[12358], [12367], [12368], [12377], [12388], [12396], [12406], [12416], [12427]]"

definition kana_ru :: ustring where "kana_ru = [12427]"
definition kana_suru :: ustring where "kana_suru = [12377, 12427]"
definition kana_i :: ustring where "kana_i = [12356]"
definition kuru_jp :: ustring where "kuru_jp = [26469, 12427]"
definition kuru_kana :: ustring where "kuru_kana = [12367, 12427]"

section \<open>\<open>Term.auto_divide\<close>\<close>

type_synonym quad = "ustring \<times> ustring \<times> ustring \<times> ustring"

text \<open>\<open>itertools.combinations\<close> (in lexicographic order) and
  \<open>Term.generate_insertions\<close>: every way to put \<open>fill_count\<close> copies of \<open>fill_term\<close>
  between the elements of \<open>origin_iter\<close>. In \<open>gi_build\<close> the iterator over the
  original elements cannot run out, since exactly \<open>m\<close> positions are left unfilled.\<close>

fun combinations :: "'a list \<Rightarrow> nat \<Rightarrow> 'a list list" where
  "combinations xs 0 = [[]]"
| "combinations [] (Suc k) = []"
| "combinations (x # xs) (Suc k) = map ((#) x) (combinations xs k) @ combinations xs (Suc k)"

fun gi_build :: "nat list \<Rightarrow> nat list \<Rightarrow> 'a list \<Rightarrow> 'a \<Rightarrow> 'a list" where
  "gi_build [] indices origin fill_term = []"
| "gi_build (i # is) indices origin fill_term =
     (if i \<in> set indices then fill_term # gi_build is indices origin fill_term
      else (case origin of
              [] \<Rightarrow> []
            | x # origin' \<Rightarrow> x # gi_build is indices origin' fill_term))"

definition generate_insertions :: "'a list \<Rightarrow> 'a \<Rightarrow> nat \<Rightarrow> 'a list list" where
  "generate_insertions origin_iter fill_term fill_count =
     (let m = length origin_iter; total_len = m + fill_count
      in map (\<lambda>indices. gi_build [0..<total_len] indices origin_iter fill_term)
           (combinations [0..<total_len] fill_count))"

text \<open>\<open>str.join("", chain.from_iterable(zip_longest(s, combo, fillvalue="")))\<close>: the
  characters of \<open>s\<close> and the strings of \<open>combo\<close> alternate, the shorter of the two
  padded with empty strings.\<close>

fun zip_longest_join :: "ustring \<Rightarrow> ustring list \<Rightarrow> ustring" where
  "zip_longest_join [] [] = []"
| "zip_longest_join (c # cs) [] = c # zip_longest_join cs []"
| "zip_longest_join [] (m # ms) = m @ zip_longest_join [] ms"
| "zip_longest_join (c # cs) (m # ms) = c # m @ zip_longest_join cs ms"

text \<open>The stem is cut into maximal runs of kana and of other characters; each run
  carries the flag \<open>is_kana\<close>. \<open>jp_list[0][0]\<close> raises \<open>IndexError\<close> on an empty stem.\<close>

fun runs_loop :: "ustring \<times> bool \<Rightarrow> ustring \<Rightarrow> (ustring \<times> bool) list" where
  "runs_loop current_token [] = [current_token]"
| "runs_loop (t, k) (c # cs) =
     (if is_kana c = k then runs_loop (t @ [c], k) cs
      else (t, k) # runs_loop ([c], is_kana c) cs)"

definition jp_runs :: "ustring \<Rightarrow> error + (ustring \<times> bool) list" where
  "jp_runs stem =
     (case stem of
        [] \<Rightarrow> Inl IndexError
      | c # cs \<Rightarrow> Inr (runs_loop ([c], is_kana c) cs))"

definition kana_pattern :: "(ustring \<times> bool) list \<Rightarrow> ustring" where
  "kana_pattern jp_gokan_list =
     ustr ''^'' @
     concat (map (\<lambda>(t, k). if k then ustr ''('' @ t @ ustr '')'' else ustr ''(.+)'')
                 jp_gokan_list) @
     ustr ''$''"

text \<open>The three markers that may follow a kanji of a run: a scheme-0 boundary \<open>/\<close>,
  a boundary of both schemes \<open>/\\<close>, or nothing; \<open>combos\<close> is
  \<open>itertools.product(["/", "/\\", ""], repeat=repeat)\<close>.\<close>

definition markers :: "ustring list" where
  "markers = [[47], [47, 92], []]"

definition combos :: "nat \<Rightarrow> ustring list list" where
  "combos repeat = product_lists (replicate repeat markers)"

definition div0_digit :: "ustring \<Rightarrow> ustring \<Rightarrow> ustring" where
  "div0_digit j k =
     (if length j = 1 then ustr ''0''
      else if length k \<le> length j then ustr ''2''
      else ustr ''1'')"

text \<open>One candidate, from the run's spelling with its markers and one placement of
  the markers in the reading. \<open>None\<close> stands for the branch that logs an error and
  makes \<open>auto_divide\<close> return the empty list.\<close>

definition candidate :: "ustring \<Rightarrow> ustring \<Rightarrow> ustring list \<Rightarrow> quad option" where
  "candidate jp_choice kana_gokan kana_combo =
     (let kana_choice = zip_longest_join kana_gokan kana_combo;
          jp_div0 = split_on 47 (remove_char 92 jp_choice);
          kana_div0 = split_on 47 (remove_char 92 kana_choice)
      in if length jp_div0 \<noteq> length kana_div0 then None
         else
           (let div0_list = map2 div0_digit jp_div0 kana_div0;
                div0_choice = join (ustr ''/'') div0_list;
                jp_div1 = split_on 92 (remove_char 47 jp_choice);
                div1_list = replicate (length jp_div1) (ustr ''0'');
                div1_choice = join [92] div1_list
            in Some (jp_choice, kana_choice, div0_choice, div1_choice)))"

fun insertion_loop :: "ustring \<Rightarrow> ustring \<Rightarrow> ustring list list \<Rightarrow> quad list \<Rightarrow> quad list option" where
  "insertion_loop jp_choice kana_gokan [] choices = Some choices"
| "insertion_loop jp_choice kana_gokan (kana_combo # rest) choices =
     (case candidate jp_choice kana_gokan kana_combo of
        None \<Rightarrow> None
      | Some q \<Rightarrow> insertion_loop jp_choice kana_gokan rest (choices @ [q]))"

text \<open>The loop over the marker combinations of one kanji run, with the list
  \<open>choices\<close> it appends to. The cap is tested at the head of every iteration, before
  the combination is looked at.\<close>

fun combo_loop :: "ustring \<Rightarrow> ustring \<Rightarrow> ustring list list \<Rightarrow> quad list \<Rightarrow> error + quad list option" where
  "combo_loop jp_gokan kana_gokan [] choices = Inr (Some choices)"
| "combo_loop jp_gokan kana_gokan (combo # rest) choices =
     (if length choices \<ge> 2000 then Inl AutoDivisionChoiceOverflowError
      else if count_list combo [47, 92] > 1 then combo_loop jp_gokan kana_gokan rest choices
      else if length kana_gokan < length jp_gokan
        then combo_loop jp_gokan kana_gokan rest
               (choices @ [(jp_gokan, kana_gokan, ustr ''1'', ustr ''0'')])
      else
        (case insertion_loop (zip_longest_join jp_gokan combo) kana_gokan
                (generate_insertions combo [] (length kana_gokan - length jp_gokan)) choices of
           None \<Rightarrow> Inr None
         | Some choices' \<Rightarrow> combo_loop jp_gokan kana_gokan rest choices'))"

text \<open>The candidates of one kanji run. \<open>itertools.product\<close> raises \<open>ValueError\<close> on a
  negative \<open>repeat\<close>.\<close>

definition kanji_choices :: "ustring \<Rightarrow> ustring \<Rightarrow> error + quad list option" where
  "kanji_choices jp_gokan kana_gokan =
     (let repeat = min (int (length jp_gokan) - 1) (int (length kana_gokan) - 1)
      in if repeat = 0 then Inr (Some [(jp_gokan, kana_gokan, ustr ''0'', ustr ''0'')])
         else if repeat < 0 then Inl ValueError
         else combo_loop jp_gokan kana_gokan (combos (nat repeat)) [])"

text \<open>The loop that builds \<open>part_list\<close>: one list of candidates for every run.\<close>

fun parts_loop :: "(ustring \<times> bool) list \<Rightarrow> ustring list \<Rightarrow> error + quad list list option" where
  "parts_loop [] kana_gokan_list = Inr (Some [])"
| "parts_loop ((jp_gokan, k) # rest) [] = Inl IndexError"
| "parts_loop ((jp_gokan, k) # rest) (kana_gokan # kanas) =
     (case (if k then Inr (Some [(jp_gokan, kana_gokan, ustr ''-1'', ustr ''-1'')])
            else kanji_choices jp_gokan kana_gokan) of
        Inl e \<Rightarrow> Inl e
      | Inr None \<Rightarrow> Inr None
      | Inr (Some part) \<Rightarrow>
          (case parts_loop rest kanas of
             Inl e \<Rightarrow> Inl e
           | Inr None \<Rightarrow> Inr None
           | Inr (Some parts) \<Rightarrow> Inr (Some (part # parts))))"

text \<open>\<open>list(dict.fromkeys(part))\<close>: duplicates removed, first occurrences kept.\<close>

fun dedup_from :: "'a list \<Rightarrow> 'a list \<Rightarrow> 'a list" where
  "dedup_from seen [] = []"
| "dedup_from seen (x # xs) =
     (if x \<in> set seen then dedup_from seen xs else x # dedup_from (x # seen) xs)"

definition dedup :: "'a list \<Rightarrow> 'a list" where
  "dedup xs = dedup_from [] xs"

definition assemble :: "ustring option \<Rightarrow> ustring option \<Rightarrow> quad list \<Rightarrow> quad" where
  "assemble jp_gobi kana_gobi combo =
     (let jp_result = join [47, 92] (map (\<lambda>(a, b, c, d). a) combo);
          kana_result = join [47, 92] (map (\<lambda>(a, b, c, d). b) combo);
          div0_result = join (ustr ''/'') (map (\<lambda>(a, b, c, d). c) combo);
          div1_result = join [92] (map (\<lambda>(a, b, c, d). d) combo)
      in case (jp_gobi, kana_gobi) of
           (Some jg, Some kg) \<Rightarrow>
             (jp_result @ ustr ''*'' @ jg, kana_result @ ustr ''*'' @ kg,
              div0_result @ ustr ''*-1'', div1_result @ ustr ''*-1'')
         | _ \<Rightarrow> (jp_result, kana_result, div0_result, div1_result))"

text \<open>The part of \<open>auto_divide\<close> after the ending has been cut off: \<open>jp_list\<close> is
  \<open>[jp_stem, jp_gobi]\<close> and \<open>kana_list\<close> is \<open>[kana_stem, kana_gobi]\<close>.\<close>

definition divide_stem :: "ustring \<Rightarrow> ustring option \<Rightarrow> ustring \<Rightarrow> ustring option \<Rightarrow> error + quad list option" where
  "divide_stem jp_stem jp_gobi kana_stem kana_gobi =
     (case jp_runs jp_stem of
        Inl e \<Rightarrow> Inl e
      | Inr jp_gokan_list \<Rightarrow>
          (case re_match (kana_pattern jp_gokan_list) kana_stem of
             Inl e \<Rightarrow> Inl e
           | Inr None \<Rightarrow> Inr None
           | Inr (Some result) \<Rightarrow>
               (case lastindex result of
                  None \<Rightarrow> Inr None
                | Some n \<Rightarrow>
                    (case parts_loop jp_gokan_list (map (group result) [1..<n + 1]) of
                       Inl e \<Rightarrow> Inl e
                     | Inr None \<Rightarrow> Inr (Some [])
                     | Inr (Some part_list) \<Rightarrow>
                         Inr (Some (map (assemble jp_gobi kana_gobi)
                                      (product_lists (map dedup part_list))))))))"

text \<open>\<open>Term.auto_divide\<close>. The result is an error raised, \<open>None\<close>, or a list of
  candidates (spelling, reading, division0, division1).\<close>

definition ending_split :: "nat \<Rightarrow> bool \<Rightarrow> ustring \<Rightarrow> ustring \<Rightarrow> error + quad list option" where
  "ending_split n ok jp kana =
     (if last_n n jp \<noteq> last_n n kana \<or> \<not> ok then Inr None
      else divide_stem (but_last_n n jp) (Some (last_n n jp))
             (but_last_n n kana) (Some (last_n n kana)))"

definition auto_divide :: "unicode_db \<Rightarrow> ustring \<Rightarrow> ustring \<Rightarrow> ustring \<Rightarrow> error + quad list option" where
  "auto_divide U jp kana term_type =
     (if length jp = 0 \<or> length kana = 0 then Inr None
      else if term_type \<notin> {ty_eigo, ty_koyuu} \<and> \<not> (is_jp_str U jp \<and> is_jp_str U kana)
        then Inl AutoDivisionDisabledError
      else if term_type = ty_godan then ending_split 1 (last_n 1 jp \<in> set gobi_list) jp kana
      else if term_type = ty_jouge then ending_split 1 (last_n 1 jp = kana_ru) jp kana
      else if term_type = ty_sahen then ending_split 2 (last_n 2 jp = kana_suru) jp kana
      else if term_type = ty_kahen then
        (if jp \<noteq> kuru_jp \<or> kana \<noteq> kuru_kana then Inr None
         else Inr (Some [(kuru_jp, kuru_kana, ustr ''0'', ustr ''0'')]))
      else if term_type = ty_keiyou then ending_split 1 (last_n 1 jp = kana_i) jp kana
      else if term_type = ty_meishi then divide_stem jp None kana None
      else if term_type = ty_koyuu then
        (if \<not> (is_jp_str U jp \<and> is_jp_str U kana) then Inl AutoDivisionDisabledError
         else divide_stem jp None kana None)
      else if term_type = ty_eigo then Inr (Some [(jp, kana, ustr ''1'', ustr ''0'')])
      else Inr None)"

section \<open>Reading a division string\<close>

text \<open>The fourth component of a candidate, and the alignment digits of a division
  string: the pieces between the ending separator \<open>*\<close> and the scheme-1 separator.\<close>

definition div1_of :: "quad \<Rightarrow> ustring" where
  "div1_of q = (case q of (a, b, c, d) \<Rightarrow> d)"

definition div_digits :: "ustring \<Rightarrow> ustring list" where
  "div_digits d = concat (map (split_on 92) (split_on 42 d))"

definition zeros :: "ustring \<Rightarrow> bool" where
  "zeros d = (list_all (\<lambda>t. t = ustr ''0'') (split_on 92 d) \<and> set d \<subseteq> {48, 92})"

definition d1_ok :: "ustring \<Rightarrow> bool" where
  "d1_ok d = (list_all (\<lambda>t. t = ustr ''0'' \<or> t = ustr ''-1'') (split_on 92 d) \<and> 42 \<notin> set d)"

text \<open>The other components of a candidate.\<close>

definition jp_of :: "quad \<Rightarrow> ustring" where
  "jp_of q = (case q of (a, b, c, d) \<Rightarrow> a)"

definition kana_of :: "quad \<Rightarrow> ustring" where
  "kana_of q = (case q of (a, b, c, d) \<Rightarrow> b)"

definition div0_of :: "quad \<Rightarrow> ustring" where
  "div0_of q = (case q of (a, b, c, d) \<Rightarrow> c)"

text \<open>
  The derivation of an alignment digit from lengths, in the words of the description of
  the solver: \<open>0\<close> when the kanji content of a slot is exactly one character, else
  \<open>1\<close> when the reading that covers it is longer than the kanji content, else \<open>2\<close>.
  \<open>div0_by_length\<close> is the division0 that the spelling and the reading of a
  candidate of a kanji run determine: the single digit \<open>0\<close> when the run or its reading
  is one character, the single digit \<open>1\<close> when the reading is shorter than the run,
  and else one digit for every slot between the scheme-0 boundaries \<open>/\<close>.
\<close>

definition length_digit :: "ustring \<Rightarrow> ustring \<Rightarrow> ustring" where
  "length_digit kanji_slot reading_slot =
     (if length kanji_slot = 1 then ustr ''0''
      else if length kanji_slot < length reading_slot then ustr ''1''
      else ustr ''2'')"

definition div0_by_length :: "ustring \<Rightarrow> ustring \<Rightarrow> ustring" where
  "div0_by_length spelling reading =
     (if length spelling = 1 \<or> length reading = 1 then ustr ''0''
      else if length reading < length spelling then ustr ''1''
      else join (ustr ''/'')
             (map2 length_digit (split_on 47 (remove_char 92 spelling))
                                (split_on 47 (remove_char 92 reading))))"

text \<open>The number of characters that \<open>auto_divide\<close> cuts off as the ending: one for
  godan, ichidan and adjective, two for sahen, none for a noun or a proper noun.\<close>

definition gobi_length :: "ustring \<Rightarrow> nat" where
  "gobi_length term_type =
     (if term_type = ty_godan \<or> term_type = ty_jouge \<or> term_type = ty_keiyou then 1
      else if term_type = ty_sahen then 2
      else 0)"

definition gobi_suffix :: "ustring \<Rightarrow> ustring" where
  "gobi_suffix term_type = (if gobi_length term_type = 0 then [] else ustr ''*-1'')"

text \<open>What holds of every candidate of a kanji run: the digits of division1 are all
  \<open>0\<close>, and division0 is the one that the lengths determine.\<close>

definition run_ok :: "quad \<Rightarrow> bool" where
  "run_ok c = (zeros (div1_of c) \<and> div0_of c = div0_by_length (jp_of c) (kana_of c))"

text \<open>What holds of the candidate of a kana run \<open>t\<close>: it spells the run, and both
  division strings are the marker \<open>-1\<close>.\<close>

definition kana_part :: "ustring \<Rightarrow> quad \<Rightarrow> bool" where
  "kana_part t c = (jp_of c = t \<and> div0_of c = ustr ''-1'' \<and> div1_of c = ustr ''-1'')"

section \<open>Worked examples\<close>

text \<open>The example in the comments of \<open>auto_divide\<close>: the ichidan verb kutabireru,
  spelled with the kanji run kutabi (two kanji, three kana) and the kana re, ru. First
  the candidates of the kanji run, then the result of the call.\<close>

definition kutabi_choices :: "quad list" where
  "kutabi_choices =
     [([33609, 47, 33253], [12367, 12383, 47, 12403], ustr ''0/0'', ustr ''0''),
      ([33609, 47, 33253], [12367, 47, 12383, 12403], ustr ''0/0'', ustr ''0''),
      ([33609, 47, 92, 33253], [12367, 12383, 47, 92, 12403], ustr ''0/0'', [48, 92, 48]),
      ([33609, 47, 92, 33253], [12367, 47, 92, 12383, 12403], ustr ''0/0'', [48, 92, 48]),
      ([33609, 33253], [12367, 12383, 12403], ustr ''1'', ustr ''0''),
      ([33609, 33253], [12367, 12383, 12403], ustr ''1'', ustr ''0'')]"

definition kutabireru_result :: "quad list" where
  "kutabireru_result =
     [([33609, 47, 33253, 47, 92, 12428, 42, 12427],
       [12367, 12383, 47, 12403, 47, 92, 12428, 42, 12427],
       ustr ''0/0/-1*-1'', [48, 92, 45, 49, 42, 45, 49]),
      ([33609, 47, 33253, 47, 92, 12428, 42, 12427],
       [12367, 47, 12383, 12403, 47, 92, 12428, 42, 12427],
       ustr ''0/0/-1*-1'', [48, 92, 45, 49, 42, 45, 49]),
      ([33609, 47, 92, 33253, 47, 92, 12428, 42, 12427],
       [12367, 12383, 47, 92, 12403, 47, 92, 12428, 42, 12427],
       ustr ''0/0/-1*-1'', [48, 92, 48, 92, 45, 49, 42, 45, 49]),
      ([33609, 47, 92, 33253, 47, 92, 12428, 42, 12427],
       [12367, 47, 92, 12383, 12403, 47, 92, 12428, 42, 12427],
       ustr ''0/0/-1*-1'', [48, 92, 48, 92, 45, 49, 42, 45, 49]),
      ([33609, 33253, 47, 92, 12428, 42, 12427],
       [12367, 12383, 12403, 47, 92, 12428, 42, 12427],
       ustr ''1/-1*-1'', [48, 92, 45, 49, 42, 45, 49])]"

text \<open>The godan verb yomu (to read), in kanji and kana, and the candidate that
  \<open>auto_divide\<close> returns for it.\<close>

definition yomu_jp :: ustring where "yomu_jp = [35501, 12416]"
definition yomu_kana :: ustring where "yomu_kana = [12424, 12416]"

definition yomu_candidate :: quad where
  "yomu_candidate = ([35501, 42, 12416], [12424, 42, 12416], ustr ''0*-1'', ustr ''0*-1'')"

text \<open>Two nouns for the cap: three kanji read with 24 kana, and the same three kanji
  read with 26 kana.\<close>

definition cap3_jp :: ustring where "cap3_jp = [26481, 20140, 37117]"
definition cap3_kana :: ustring where "cap3_kana =
     [12354, 12354, 12354, 12354, 12354, 12354, 12354, 12354, 12354, 12354, 12354, 12354,
      12354, 12354, 12354, 12354, 12354, 12354, 12354, 12354, 12354, 12354, 12354, 12354]"
definition cap26_kana :: ustring where "cap26_kana =
     [12354, 12354, 12354, 12354, 12354, 12354, 12354, 12354, 12354, 12354, 12354, 12354, 12354,
      12354, 12354, 12354, 12354, 12354, 12354, 12354, 12354, 12354, 12354, 12354, 12354, 12354]"


section \<open>The candidates of a run without the cap\<close>

text \<open>
  To state what the cap of 2000 does, the body of one iteration of \<open>combo_loop\<close> is
  named: \<open>combo_step\<close> is the list of candidates that one marker combination appends
  (\<open>None\<close> for the branch that makes \<open>auto_divide\<close> return the empty list), and
  \<open>run_candidates\<close> is what the loop accumulates over a list of combinations when
  the cap is never tested. \<open>cap_ok\<close> runs the cap test on the numbers alone: the
  number of candidates each combination appends, and the number accumulated so far.
\<close>

definition combo_step :: "ustring \<Rightarrow> ustring \<Rightarrow> ustring list \<Rightarrow> quad list option" where
  "combo_step jp_gokan kana_gokan combo =
     (if count_list combo [47, 92] > 1 then Some []
      else if length kana_gokan < length jp_gokan
        then Some [(jp_gokan, kana_gokan, ustr ''1'', ustr ''0'')]
      else insertion_loop (zip_longest_join jp_gokan combo) kana_gokan
             (generate_insertions combo [] (length kana_gokan - length jp_gokan)) [])"

definition run_candidates :: "ustring \<Rightarrow> ustring \<Rightarrow> ustring list list \<Rightarrow> quad list" where
  "run_candidates jp_gokan kana_gokan cs =
     concat (map (\<lambda>c. case combo_step jp_gokan kana_gokan c of None \<Rightarrow> [] | Some xs \<Rightarrow> xs) cs)"

fun cap_ok :: "nat list \<Rightarrow> nat \<Rightarrow> bool" where
  "cap_ok [] a = True"
| "cap_ok (l # ls) a = (a < 2000 \<and> cap_ok ls (a + l))"

text \<open>The number of candidates one combination appends, when the spelling and the
  reading of the run hold the same number of characters \<open>/\<close>.\<close>

definition step_count :: "ustring \<Rightarrow> ustring \<Rightarrow> ustring list \<Rightarrow> nat" where
  "step_count jp_gokan kana_gokan combo =
     (if count_list combo [47, 92] > 1 then 0
      else if length kana_gokan < length jp_gokan then 1
      else (length combo + (length kana_gokan - length jp_gokan)) choose
             (length kana_gokan - length jp_gokan))"

text \<open>The number \<open>repeat\<close> of marker positions of a kanji run, when it is not
  negative: \<open>min(len(jp_gokan) - 1, len(kana_gokan) - 1)\<close>.\<close>

definition repeat_of :: "ustring \<Rightarrow> ustring \<Rightarrow> nat" where
  "repeat_of jp_gokan kana_gokan =
     nat (min (int (length jp_gokan) - 1) (int (length kana_gokan) - 1))"

section \<open>The dictionary: rows, ids, \<open>append\<close> and \<open>remove\<close>\<close>

text \<open>The fields of a \<open>Term\<close> object, which are also the six cells of a dictionary row
  (\<open>Term.to_dict\<close>): \<open>jp\<close>, \<open>kana\<close>, \<open>div0\<close>, \<open>div1\<close>, \<open>term_type\<close> and \<open>pri\<close>.\<close>

record dterm =
  t_jp :: ustring
  t_kana :: ustring
  t_div0 :: ustring
  t_div1 :: ustring
  t_type :: ustring
  t_pri :: int

text \<open>The \<open>DataFrame\<close> \<open>self.dic\<close>: its rows in order, each under its index label.
  \<open>labels\<close> is \<open>self.dic.index\<close>.\<close>

type_synonym dataframe = "(int \<times> dterm) list"

definition labels :: "dataframe \<Rightarrow> int list" where
  "labels df = map fst df"

text \<open>A \<open>Dictionary\<close> object: the frame \<open>self.dic\<close> and the counter \<open>self.index\<close>.\<close>

record dictionary =
  dic :: dataframe
  index :: int

text \<open>\<open>Dictionary.__init__\<close>, from the frame that \<open>load_from_csv\<close> returns:
  \<open>self.index = self.dic.index.max() + 1 if len(self.dic) > 0 else 0\<close>.\<close>

definition init_dic :: "dataframe \<Rightarrow> dictionary" where
  "init_dic df =
     \<lparr> dic = df, index = (if length df > 0 then Max (set (labels df)) + 1 else 0) \<rparr>"

text \<open>\<open>Dictionary.is_exists\<close>: some row equals the term in all six fields.\<close>

definition is_exists :: "dictionary \<Rightarrow> dterm \<Rightarrow> bool" where
  "is_exists d new_term =
     list_ex (\<lambda>(l, row). t_jp new_term = t_jp row \<and> t_kana new_term = t_kana row \<and>
        t_div0 new_term = t_div0 row \<and> t_div1 new_term = t_div1 row \<and>
        t_type new_term = t_type row \<and> t_pri new_term = t_pri row) (dic d)"

text \<open>The pandas assignment \<open>df.loc[label] = row\<close>: the row under an existing label is
  overwritten in place, a new label is added at the end. \<open>df.drop(label, axis=0)\<close>
  removes the row under the label.\<close>

definition loc_set :: "dataframe \<Rightarrow> int \<Rightarrow> dterm \<Rightarrow> dataframe" where
  "loc_set df label row =
     (if label \<in> set (labels df)
      then map (\<lambda>(l, r). if l = label then (l, row) else (l, r)) df
      else df @ [(label, row)])"

definition drop_label :: "int \<Rightarrow> dataframe \<Rightarrow> dataframe" where
  "drop_label label df = filter (\<lambda>(l, r). l \<noteq> label) df"

text \<open>\<open>Dictionary.append\<close> returns the id, or \<open>None\<close> for a term that exists, with the
  dictionary after the call; \<open>Dictionary.remove\<close> returns whether the id was there.\<close>

definition append_dic :: "dictionary \<Rightarrow> dterm \<Rightarrow> int option \<times> dictionary" where
  "append_dic d new_term =
     (if is_exists d new_term then (None, d)
      else (Some (index d + 1 - 1),
            d \<lparr> dic := loc_set (dic d) (index d) new_term, index := index d + 1 \<rparr>))"

definition remove_dic :: "dictionary \<Rightarrow> int \<Rightarrow> bool \<times> dictionary" where
  "remove_dic d i =
     (if i \<in> set (labels (dic d)) then (True, d \<lparr> dic := drop_label i (dic d) \<rparr>)
      else (False, d))"

text \<open>\<open>Dictionary.update\<close> with the frame that \<open>check\<close> returns: \<open>self.dic\<close> is replaced,
  \<open>self.index\<close> is left as it is. \<open>Dictionary.copy\<close> builds a new dictionary from the
  file at \<open>dic_path\<close> (\<open>file\<close> is the frame loaded from it) and updates it with
  \<open>self.dic\<close>.\<close>

definition update_dic :: "dictionary \<Rightarrow> dataframe \<Rightarrow> dictionary" where
  "update_dic d new_df = d \<lparr> dic := new_df \<rparr>"

definition copy_dic :: "dataframe \<Rightarrow> dictionary \<Rightarrow> dictionary" where
  "copy_dic file d = update_dic (init_dic file) (dic d)"

text \<open>A sequence of calls of \<open>append\<close> and \<open>remove\<close>, and the ids it assigns, in order.\<close>

datatype dic_op = Append dterm | Remove int

fun run_ops :: "dictionary \<Rightarrow> dic_op list \<Rightarrow> dictionary \<times> int list" where
  "run_ops d [] = (d, [])"
| "run_ops d (Append t # ops) =
     (case append_dic d t of
        (None, d') \<Rightarrow> run_ops d' ops
      | (Some i, d') \<Rightarrow> (case run_ops d' ops of (d'', ids) \<Rightarrow> (d'', i # ids)))"
| "run_ops d (Remove i # ops) = run_ops (snd (remove_dic d i)) ops"

text \<open>Every id stored in the dictionary is below the counter.\<close>

definition ids_below :: "dictionary \<Rightarrow> bool" where
  "ids_below d = list_all (\<lambda>l. l < index d) (labels (dic d))"

text \<open>Two nouns, a dictionary created from an empty file to which the first noun was
  appended, and its copy while the file is still empty.\<close>

definition tokyo_term :: dterm where
  "tokyo_term = \<lparr> t_jp = [26481, 20140], t_kana = [12392, 12358, 12365, 12423, 12358],
     t_div0 = ustr ''2'', t_div1 = ustr ''0'', t_type = ty_meishi, t_pri = 0 \<rparr>"

definition kyoto_term :: dterm where
  "kyoto_term = \<lparr> t_jp = [20140, 37117], t_kana = [12365, 12423, 12358, 12392],
     t_div0 = ustr ''2'', t_div1 = ustr ''0'', t_type = ty_meishi, t_pri = 0 \<rparr>"

definition main_dic :: dictionary where
  "main_dic = snd (append_dic (init_dic []) tokyo_term)"

definition copied_dic :: dictionary where
  "copied_dic = copy_dic [] main_dic"

section \<open>Terms: validity\<close>

text \<open>The separators and the escape character, as code points: \<open>/\<close> is 47, \<open>\\<close> is 92,
  \<open>*\<close> is 42 and \<open>$\<close> is 36.\<close>

text \<open>Sequencing of calls that may raise: the first error ends the computation.\<close>

definition bind_e :: "error + 'a \<Rightarrow> ('a \<Rightarrow> error + 'b) \<Rightarrow> error + 'b" where
  "bind_e x f = (case x of Inl e \<Rightarrow> Inl e | Inr v \<Rightarrow> f v)"

text \<open>\<open>Term.is_valid_transfer\<close>. The loop index advances by one for an ordinary
  character; at a \<open>$\<close> followed by one of \<open>/ \ * $\<close> it advances by two and then by one
  more, so the character after the escaped one is not examined.\<close>

fun is_valid_transfer :: "ustring \<Rightarrow> bool" where
  "is_valid_transfer [] = True"
| "is_valid_transfer [c] = (c \<noteq> 36)"
| "is_valid_transfer [c, e] =
     (if c = 36 then e \<in> {47, 92, 42, 36} else is_valid_transfer [e])"
| "is_valid_transfer (c # e # x # rest) =
     (if c = 36 then e \<in> {47, 92, 42, 36} \<and> is_valid_transfer rest
      else is_valid_transfer (e # x # rest))"

text \<open>\<open>Term.div_remove\<close> and \<open>Term.div_split\<close>: \<open>re.sub\<close> and \<open>re.split\<close> on the pattern
  \<open>(?<!\$)c\<close>, an occurrence of the separator \<open>c\<close> that does not follow a \<open>$\<close> in the
  original string. \<open>prev\<close> is the character before the current position.\<close>

fun div_remove_from :: "uchar option \<Rightarrow> uchar \<Rightarrow> ustring \<Rightarrow> ustring" where
  "div_remove_from prev d [] = []"
| "div_remove_from prev d (c # cs) =
     (if c = d \<and> prev \<noteq> Some 36 then div_remove_from (Some c) d cs
      else c # div_remove_from (Some c) d cs)"

definition div_remove :: "ustring \<Rightarrow> uchar \<Rightarrow> ustring" where
  "div_remove origin_str div_char = div_remove_from None div_char origin_str"

fun div_split_from :: "uchar option \<Rightarrow> uchar \<Rightarrow> ustring \<Rightarrow> ustring list" where
  "div_split_from prev d [] = [[]]"
| "div_split_from prev d (c # cs) =
     (if c = d \<and> prev \<noteq> Some 36 then [] # div_split_from (Some c) d cs
      else (case div_split_from (Some c) d cs of
              [] \<Rightarrow> [[c]]
            | p # ps \<Rightarrow> (c # p) # ps))"

definition div_split :: "ustring \<Rightarrow> uchar \<Rightarrow> ustring list" where
  "div_split origin_str div_char = div_split_from None div_char origin_str"

text \<open>\<open>str.replace\<close> of one character by a string, and of a pair of characters by a
  string (occurrences are found from the left and do not overlap).\<close>

definition replace_char :: "uchar \<Rightarrow> ustring \<Rightarrow> ustring \<Rightarrow> ustring" where
  "replace_char c new s = concat (map (\<lambda>x. if x = c then new else [x]) s)"

fun replace_pair :: "uchar \<Rightarrow> uchar \<Rightarrow> ustring \<Rightarrow> ustring \<Rightarrow> ustring" where
  "replace_pair a b new (x # y # zs) =
     (if x = a \<and> y = b then new @ replace_pair a b new zs
      else x # replace_pair a b new (y # zs))"
| "replace_pair a b new [x] = [x]"
| "replace_pair a b new [] = []"

text \<open>\<open>Term.remove_seps\<close>: the three separators are removed in turn, then the escapes
  \<open>$/\<close>, \<open>$\\<close>, \<open>$*\<close>, \<open>$$\<close> are replaced in turn by the escaped character.\<close>

definition remove_seps :: "ustring \<Rightarrow> ustring" where
  "remove_seps origin_str =
     foldl (\<lambda>s c. replace_pair 36 c [c] s) (foldl div_remove origin_str [47, 92, 42])
       [47, 92, 42, 36]"

text \<open>The compiled patterns of \<open>Term.PATTERNS\<close> for the ending:
  \<open>^(.+)(?<!\$)\*.*$\<close>, \<open>^.+(?<!\$)(\*).+$\<close> and \<open>^.+(?<!\$)\*(.*)$\<close>.\<close>

definition pattern_remove_gobi :: rx where
  "pattern_remove_gobi =
     seq_of [RBol, RGrp 1 (RPlus RAny), RNotAfter 36, RLit 42, RStar RAny, REol]"

definition pattern_is_gobi_exists :: rx where
  "pattern_is_gobi_exists =
     seq_of [RBol, RPlus RAny, RNotAfter 36, RGrp 1 (RLit 42), RPlus RAny, REol]"

definition pattern_get_gobi :: rx where
  "pattern_get_gobi =
     seq_of [RBol, RPlus RAny, RNotAfter 36, RLit 42, RGrp 1 (RStar RAny), REol]"

text \<open>\<open>Term.remove_gobi\<close>, \<open>Term.is_gobi_exists\<close> and \<open>Term.get_gobi\<close>, with the tests
  of \<open>lastindex\<close> that the code makes.\<close>

definition remove_gobi :: "ustring \<Rightarrow> error + ustring" where
  "remove_gobi origin_str =
     (case rx_match pattern_remove_gobi origin_str of
        None \<Rightarrow> Inr origin_str
      | Some result \<Rightarrow>
          (case lastindex result of
             None \<Rightarrow> Inr (group result 1)
           | Some n \<Rightarrow> if n > 1 then Inl MultipleGobiError else Inr (group result 1)))"

definition is_gobi_exists :: "ustring \<Rightarrow> error + bool" where
  "is_gobi_exists origin_str =
     (case rx_match pattern_is_gobi_exists origin_str of
        None \<Rightarrow> Inr False
      | Some result \<Rightarrow>
          (case lastindex result of
             None \<Rightarrow> Inl ValueError
           | Some n \<Rightarrow> if n > 1 then Inl MultipleGobiError else Inr True))"

definition get_gobi :: "ustring \<Rightarrow> error + ustring" where
  "get_gobi origin_str =
     (case rx_match pattern_get_gobi origin_str of
        None \<Rightarrow> Inl ValueError
      | Some result \<Rightarrow>
          (case lastindex result of
             None \<Rightarrow> Inr (group result 1)
           | Some n \<Rightarrow> if n > 1 then Inl MultipleGobiError else Inr (group result 1)))"

text \<open>A cell of a data frame, or an argument of \<open>Term\<close>: a string; a finite number
  (an integer, a float or a boolean), of which the code only takes \<open>int\<close>, given here by
  that value; the float \<open>nan\<close>, which is how an empty cell of a file is read; or an
  infinite float. \<open>int\<close> of a cell raises \<open>ValueError\<close> for a string that is no number and
  for \<open>nan\<close>, and \<open>OverflowError\<close> for an infinite float.\<close>

datatype cell = CStr ustring | CNum int | CNaN | CInf

definition int_cell :: "unicode_db \<Rightarrow> cell \<Rightarrow> error + int" where
  "int_cell U c =
     (case c of
        CStr s \<Rightarrow> (case int_of_str U s of None \<Rightarrow> Inl ValueError | Some n \<Rightarrow> Inr n)
      | CNum n \<Rightarrow> Inr n
      | CNaN \<Rightarrow> Inl ValueError
      | CInf \<Rightarrow> Inl OverflowError)"

text \<open>The first test of \<open>Term.is_valid\<close>,
  \<open>all(Term.is_valid_transfer(s) for s in (self.jp, self.kana, self.div0, self.div1))\<close>:
  the fields are examined in turn, the first invalid one ends the test, and \<open>len\<close> of a
  field that is no string raises \<open>TypeError\<close>.\<close>

fun all_valid_transfer :: "cell list \<Rightarrow> error + bool" where
  "all_valid_transfer [] = Inr True"
| "all_valid_transfer (CStr s # cs) =
     (if is_valid_transfer s then all_valid_transfer cs else Inr False)"
| "all_valid_transfer (CNum n # cs) = Inl TypeError"
| "all_valid_transfer (CNaN # cs) = Inl TypeError"
| "all_valid_transfer (CInf # cs) = Inl TypeError"

text \<open>The last part of \<open>Term.is_valid\<close>: stem, reading and division are split at the
  separator of the scheme, and every slot is examined. A slot of kana only must be its
  own reading with digit \<open>-1\<close>; a slot without kana must have digit 0, 1 or 2; an empty
  slot and a slot that mixes kana with other characters are invalid. For a proper noun
  only the digit is examined.\<close>

definition elem_valid :: "bool \<Rightarrow> ustring \<times> ustring \<times> ustring \<Rightarrow> bool" where
  "elem_valid koyuu e =
     (case e of (jp_elem, kana_elem, div_elem) \<Rightarrow>
        (let is_all_kana = list_all is_kana jp_elem;
             is_not_all_kana = list_all (\<lambda>c. \<not> is_kana c) jp_elem
         in if \<not> koyuu then
              (if is_all_kana then
                 (if is_not_all_kana then False
                  else \<not> (jp_elem \<noteq> kana_elem \<or> div_elem \<noteq> ustr ''-1''))
               else
                 (if is_not_all_kana then div_elem \<in> {ustr ''0'', ustr ''1'', ustr ''2''}
                  else False))
            else div_elem \<in> {ustr ''-1'', ustr ''0'', ustr ''1'', ustr ''2''}))"

definition split_valid :: "bool \<Rightarrow> uchar \<Rightarrow> ustring \<Rightarrow> ustring \<Rightarrow> ustring \<Rightarrow> bool" where
  "split_valid koyuu div_char jp kana division =
     (let jp_list = div_split jp div_char;
          kana_list = div_split kana div_char;
          div_list = div_split division div_char
      in if length jp_list \<noteq> length kana_list \<or> length jp_list \<noteq> length div_list then False
         else list_all (elem_valid koyuu) (zip jp_list (zip kana_list div_list)))"

text \<open>\<open>en_valid\<close>, the test of an English word: letters and apostrophes.\<close>

definition en_valid :: "unicode_db \<Rightarrow> ustring \<Rightarrow> bool" where
  "en_valid U s = list_all (\<lambda>c. isalpha U c \<or> c = 39) s"

text \<open>The test of the ending of a type with conjugation (the \<open>match\<close> statement).\<close>

definition gobi_valid :: "cell \<Rightarrow> ustring \<Rightarrow> bool" where
  "gobi_valid term_type jp_gobi =
     (if term_type = CStr ty_godan then jp_gobi \<in> set gobi_list
      else if term_type = CStr ty_jouge then jp_gobi = kana_ru
      else if term_type = CStr ty_sahen then jp_gobi = kana_suru
      else if term_type = CStr ty_keiyou then jp_gobi = kana_i
      else False)"

text \<open>The three calls of \<open>get_gobi\<close> inside \<open>try\<close>: \<open>MultipleGobiError\<close> is caught and
  makes the term invalid, any other error goes on.\<close>

definition get_gobis :: "ustring \<Rightarrow> ustring \<Rightarrow> ustring \<Rightarrow> error + (ustring \<times> ustring \<times> ustring) option" where
  "get_gobis jp kana division =
     (case bind_e (get_gobi jp) (\<lambda>jp_gobi.
             bind_e (get_gobi kana) (\<lambda>kana_gobi.
             bind_e (get_gobi division) (\<lambda>division_gobi.
             Inr (jp_gobi, kana_gobi, division_gobi)))) of
        Inl e \<Rightarrow> if e = MultipleGobiError then Inr None else Inl e
      | Inr g \<Rightarrow> Inr (Some g))"

text \<open>\<open>Term.is_valid\<close> for string fields, after the test of the escapes.
  \<open>div_type\<close> is 0 or 1.\<close>

definition is_valid_fields ::
  "unicode_db \<Rightarrow> ustring \<Rightarrow> ustring \<Rightarrow> ustring \<Rightarrow> ustring \<Rightarrow> cell \<Rightarrow> nat \<Rightarrow> error + bool" where
  "is_valid_fields U self_jp self_kana self_div0 self_div1 term_type div_type =
     (if term_type \<notin> {CStr ty_eigo, CStr ty_koyuu} \<and>
         \<not> (is_jp_valid_str U self_jp \<and> is_jp_valid_str U self_kana) then Inr False
      else
        (let other = (if div_type = 0 then 92 else 47);
             div_char = (if div_type = 0 then 47 else 92);
             jp = div_remove self_jp other;
             kana = div_remove self_kana other;
             division = div_remove (if div_type = 0 then self_div0 else self_div1) other
         in bind_e (is_gobi_exists jp) (\<lambda>e_jp.
            bind_e (is_gobi_exists kana) (\<lambda>e_kana.
            bind_e (is_gobi_exists division) (\<lambda>e_div.
              if term_type \<in> {CStr ty_meishi, CStr ty_koyuu} then
                (if e_jp \<or> e_kana \<or> e_div then Inr False
                 else Inr (split_valid (term_type = CStr ty_koyuu) div_char jp kana division))
              else if term_type = CStr ty_kahen then
                Inr (\<not> (jp \<noteq> kuru_jp \<or> kana \<noteq> kuru_kana \<or> division \<noteq> ustr ''0''))
              else if term_type = CStr ty_eigo then
                (if e_jp \<or> e_kana \<or> e_div then Inr False
                 else Inr (en_valid U jp \<and>
                        ((division = ustr ''1'' \<and> div_type = 0) \<or>
                         (division = ustr ''0'' \<and> div_type = 1))))
              else if \<not> (e_jp \<and> e_kana \<and> e_div) then Inr False
              else
                bind_e (get_gobis jp kana division) (\<lambda>g.
                  case g of
                    None \<Rightarrow> Inr False
                  | Some (jp_gobi, kana_gobi, division_gobi) \<Rightarrow>
                      if jp_gobi \<noteq> kana_gobi \<or> division_gobi \<noteq> ustr ''-1'' then Inr False
                      else if \<not> gobi_valid term_type jp_gobi then Inr False
                      else
                        bind_e (remove_gobi jp) (\<lambda>jp'.
                        bind_e (remove_gobi kana) (\<lambda>kana'.
                        bind_e (remove_gobi division) (\<lambda>division'.
                          Inr (split_valid False div_char jp' kana' division'))))))))))"

text \<open>\<open>Term.is_valid\<close>.\<close>

definition is_valid ::
  "unicode_db \<Rightarrow> cell \<Rightarrow> cell \<Rightarrow> cell \<Rightarrow> cell \<Rightarrow> cell \<Rightarrow> nat \<Rightarrow> error + bool" where
  "is_valid U self_jp self_kana self_div0 self_div1 term_type div_type =
     bind_e (all_valid_transfer [self_jp, self_kana, self_div0, self_div1]) (\<lambda>ok.
       if \<not> ok then Inr False
       else
         (case (self_jp, self_kana, self_div0, self_div1) of
            (CStr j, CStr k, CStr d0, CStr d1) \<Rightarrow> is_valid_fields U j k d0 d1 term_type div_type
          | _ \<Rightarrow> Inl TypeError))"

text \<open>\<open>Term.__init__\<close>: \<open>ValueError\<close> unless the term is valid for both schemes. The
  object is returned with its six fields; a valid term has string fields and one of the
  eight type labels.\<close>

definition Term_init ::
  "unicode_db \<Rightarrow> cell \<Rightarrow> cell \<Rightarrow> cell \<Rightarrow> cell \<Rightarrow> cell \<Rightarrow> int \<Rightarrow> error + dterm" where
  "Term_init U japanese kana div0 div1 term_type priority =
     bind_e (is_valid U japanese kana div0 div1 term_type 0) (\<lambda>v0.
       if \<not> v0 then Inl ValueError
       else
         bind_e (is_valid U japanese kana div0 div1 term_type 1) (\<lambda>v1.
           if \<not> v1 then Inl ValueError
           else
             (case (japanese, kana, div0, div1, term_type) of
                (CStr j, CStr k, CStr d0, CStr d1, CStr ty) \<Rightarrow>
                  Inr \<lparr> t_jp = j, t_kana = k, t_div0 = d0, t_div1 = d1, t_type = ty,
                        t_pri = priority \<rparr>
              | _ \<Rightarrow> Inl TypeError)))"

text \<open>The construction of a term from a dictionary row.\<close>

definition term_of_row :: "unicode_db \<Rightarrow> dterm \<Rightarrow> error + dterm" where
  "term_of_row U row =
     Term_init U (CStr (t_jp row)) (CStr (t_kana row)) (CStr (t_div0 row)) (CStr (t_div1 row))
       (CStr (t_type row)) (t_pri row)"

section \<open>Terms: the matching template and the tokens\<close>


text \<open>The table \<open>gobi_dic\<close> of \<open>re_pattern\<close>: the conjugated endings of a godan verb, by
  its dictionary ending.
  u: wa i u e o (small tsu);
  ku: ka ki ku ke ko i;
  gu: ga gi gu ge go i;
  su: sa shi su se so;
  tsu: ta chi tsu te to (small tsu);
  nu: na ni nu ne no n;
  bu: ba bi bu be bo n;
  mu: ma mi mu me mo n;
  ru: ra ri ru re ro (small tsu).\<close>

definition gobi_dic :: "(ustring \<times> ustring list) list" where
  "gobi_dic =
     [([12358], [[12431], [12356], [12358], [12360], [12362], [12387]]),
      ([12367], [[12363], [12365], [12367], [12369], [12371], [12356]]),
      ([12368], [[12364], [12366], [12368], [12370], [12372], [12356]]),
      ([12377], [[12373], [12375], [12377], [12379], [12381]]),
      ([12388], [[12383], [12385], [12388], [12390], [12392], [12387]]),
      ([12396], [[12394], [12395], [12396], [12397], [12398], [12435]]),
      ([12406], [[12400], [12403], [12406], [12409], [12412], [12435]]),
      ([12416], [[12414], [12415], [12416], [12417], [12418], [12435]]),
      ([12427], [[12425], [12426], [12427], [12428], [12429], [12387]])]"

text \<open>The endings of an adjective in \<open>re_pattern\<close>: i, ku, kaxtsu, kereba, garu, gari,
  gara, gare, garo, sa, ge, sou, sasou, sugi, and sugi written with its kanji.\<close>

definition keiyou_gobi :: "ustring list" where
  "keiyou_gobi =
     [[12356], [12367], [12363, 12387], [12369, 12428, 12400], [12364, 12427], [12364, 12426], [12364, 12425], [12364, 12428],
      [12364, 12429], [12373], [12370], [12381, 12358], [12373, 12381, 12358], [12377, 12366], [36942, 12366]]"

text \<open>The template of the kahen verb:
  \<open>^(kuru|konai|konaku|konakaxtsu|konakereba|kinasa|kita|kite|korare|koi|koyo)(.*)$\<close>,
  each form written with the kanji of \<open>kuru\<close>.\<close>

definition kahen_pattern :: ustring where
  "kahen_pattern =
     [94, 40, 26469, 12427, 124, 26469, 12394, 12356, 124, 26469, 12394, 12367]
     @ [124, 26469, 12394, 12363, 12387, 124, 26469, 12394, 12369, 12428, 12400, 124]
     @ [26469, 12394, 12373, 124, 26469, 12383, 124, 26469, 12390, 124, 26469, 12425]
     @ [12428, 124, 26469, 12356, 124, 26469, 12424, 41, 40, 46, 42, 41]
     @ [36]"

text \<open>The characters that \<open>re_pattern\<close> escapes for a proper noun, in the order of the
  code: \<open>\ $ ( ) * ? + . [ ] { } | ^\<close>; each is replaced in turn by a backslash and
  itself.\<close>

definition dec_chars :: "uchar list" where
  "dec_chars = [92, 36, 40, 41, 42, 63, 43, 46, 91, 93, 123, 125, 124, 94]"

definition escape_dec :: "ustring \<Rightarrow> ustring" where
  "escape_dec s = foldl (\<lambda>s dec_c. replace_char dec_c [92, dec_c] s) s dec_chars"

text \<open>The class \<open>[xX]\<close> of a letter in both cases, for an English word.\<close>

definition letter_class :: "unicode_db \<Rightarrow> uchar \<Rightarrow> ustring" where
  "letter_class U c = [91] @ lower U c @ upper U c @ [93]"

text \<open>\<open>Term.re_pattern\<close>. \<open>paren p\<close> is \<open>"^({})(.*)$".format(p)\<close>.\<close>

definition paren :: "ustring \<Rightarrow> ustring" where
  "paren p = ustr ''^('' @ p @ ustr '')(.*)$''"

definition re_pattern :: "unicode_db \<Rightarrow> dterm \<Rightarrow> error + ustring" where
  "re_pattern U t =
     (if t_type t = ty_meishi then Inr (paren (remove_seps (t_jp t)))
      else if t_type t = ty_koyuu then Inr (paren (escape_dec (remove_seps (t_jp t))))
      else if t_type t = ty_godan then
        bind_e (remove_gobi (t_jp t)) (\<lambda>stem.
        bind_e (get_gobi (t_jp t)) (\<lambda>g.
          case map_of gobi_dic g of
            None \<Rightarrow> Inl KeyError
          | Some forms \<Rightarrow>
              Inr (paren (remove_seps stem @ ustr ''(?:'' @ join (ustr ''|'') forms @ ustr '')''))))
      else if t_type t = ty_jouge \<or> t_type t = ty_sahen then
        bind_e (remove_gobi (t_jp t)) (\<lambda>stem. Inr (paren (remove_seps stem)))
      else if t_type t = ty_kahen then Inr kahen_pattern
      else if t_type t = ty_keiyou then
        bind_e (remove_gobi (t_jp t)) (\<lambda>stem.
          Inr (paren (remove_seps stem @ ustr ''(?:'' @ join (ustr ''|'') keiyou_gobi @ ustr '')'')))
      else if t_type t = ty_eigo then Inr (paren (concat (map (letter_class U) (t_jp t))))
      else Inl ValueError)"

text \<open>The table \<open>kahen_dic\<close> of \<open>Term.kahen_to_token\<close>, in the order of the code: the
  forms of \<open>kuru\<close> and their readings.\<close>

definition kahen_dic :: "(ustring \<times> ustring) list" where
  "kahen_dic =
     [([26469, 12427], [12367, 12427]),
      ([26469, 12394, 12356], [12371, 12394, 12356]),
      ([26469, 12394, 12367], [12371, 12394, 12367]),
      ([26469, 12394, 12363, 12387], [12371, 12394, 12363, 12387]),
      ([26469, 12394, 12369, 12428, 12400], [12371, 12394, 12369, 12428, 12400]),
      ([26469, 12394, 12373], [12365, 12394, 12373, 12356]),
      ([26469, 12383], [12365, 12383]),
      ([26469, 12390], [12365, 12390]),
      ([26469, 12425, 12428], [12371, 12425, 12428]),
      ([26469, 12356], [12371, 12356]),
      ([26469, 12424], [12371, 12424])]"

type_synonym pre_token = "ustring list \<times> ustring list \<times> ustring list \<times> ustring"

fun kahen_loop :: "(ustring \<times> ustring) list \<Rightarrow> ustring \<Rightarrow> error + pre_token" where
  "kahen_loop [] origin_str = Inl ValueError"
| "kahen_loop ((key, v) # rest) origin_str =
     (if startswith origin_str key
      then Inr ([[26469], tl key], [[hd v], tl v], [ustr ''0'', ustr ''-1''],
                drop (length key) origin_str)
      else kahen_loop rest origin_str)"

definition kahen_to_token :: "ustring \<Rightarrow> error + pre_token" where
  "kahen_to_token origin_str = kahen_loop kahen_dic origin_str"

text \<open>\<open>Term.pre_to_token\<close>; \<open>div_type\<close> is 0, 1 or 2. The template of the other types is
  \<open>"^({})\\*?(.*)$"\<close>, the stem followed by an optional \<open>*\<close>.\<close>

definition pre_to_token :: "unicode_db \<Rightarrow> dterm \<Rightarrow> ustring \<Rightarrow> nat \<Rightarrow> error + pre_token" where
  "pre_to_token U t origin_str div_type =
     (if t_type t = ty_kahen then kahen_to_token origin_str
      else
        (let div_char = (if div_type = 0 then 47 else 92);
             needless_div_char = (if div_type = 0 then 92 else 47);
             d = (if div_type = 0 then t_div0 t else t_div1 t);
             jp = div_remove (t_jp t) needless_div_char;
             kana = div_remove (t_kana t) needless_div_char;
             division = div_remove d needless_div_char
         in bind_e (remove_gobi jp) (\<lambda>jp_gokan.
            bind_e (remove_gobi kana) (\<lambda>kana_gokan.
            bind_e (remove_gobi division) (\<lambda>div_gokan.
              (let pattern =
                 (if t_type t = ty_eigo then paren (concat (map (letter_class U) jp_gokan))
                  else if t_type t = ty_koyuu then paren (escape_dec (remove_seps jp_gokan))
                  else ustr ''^('' @ remove_seps jp_gokan @ [41, 92, 42, 63] @ ustr ''(.*)$'')
               in bind_e (re_match pattern origin_str) (\<lambda>result.
                    case result of
                      None \<Rightarrow> Inl ValueError
                    | Some m \<Rightarrow>
                        Inr (if t_type t \<noteq> ty_eigo then div_split jp_gokan div_char
                             else div_split (group m 1) div_char,
                             div_split kana_gokan div_char,
                             div_split div_gokan div_char,
                             group m 2))))))))"

text \<open>A \<open>Token0\<close> object, and the loop of \<open>Term.to_token0\<close> over the slots: the three lists
  are read at the same index, and an index out of range raises \<open>IndexError\<close>.\<close>

record token0 =
  tk_jp :: ustring
  tk_kana :: "ustring option"
  tk_alignment :: int

definition Token0 :: "ustring \<Rightarrow> token0" where
  "Token0 a = \<lparr> tk_jp = a, tk_kana = None, tk_alignment = 0 \<rparr>"

fun slot_tokens :: "unicode_db \<Rightarrow> ustring list \<Rightarrow> ustring list \<Rightarrow> ustring list \<Rightarrow> error + token0 list" where
  "slot_tokens U [] kana_list div_list = Inr []"
| "slot_tokens U (j # js) kana_list [] = Inl IndexError"
| "slot_tokens U (j # js) kana_list (d # ds) =
     (case int_of_str U d of
        None \<Rightarrow> Inl ValueError
      | Some a \<Rightarrow>
          if a \<in> {0, 1, 2} then
            (case kana_list of
               [] \<Rightarrow> Inl IndexError
             | k # ks \<Rightarrow>
                 bind_e (slot_tokens U js ks ds) (\<lambda>ts.
                   Inr (\<lparr> tk_jp = remove_seps j, tk_kana = Some (remove_seps k),
                           tk_alignment = a \<rparr> # ts)))
          else bind_e (slot_tokens U js (tl kana_list) ds) (\<lambda>ts.
                 Inr (Token0 (remove_seps j) # ts)))"

definition to_token0 :: "unicode_db \<Rightarrow> dterm \<Rightarrow> ustring \<Rightarrow> error + token0 list" where
  "to_token0 U t origin_str =
     bind_e (pre_to_token U t origin_str 0) (\<lambda>(jp_list, kana_list, div_list, leftover).
       bind_e (slot_tokens U jp_list kana_list div_list) (\<lambda>tokens.
         Inr (if length leftover > 0 then tokens @ [Token0 (remove_seps leftover)]
              else tokens)))"


section \<open>The dictionary: bulk load\<close>

text \<open>A row of a data frame that is to be checked: the cells of the six required
  columns. The frame is given by the names of its columns and by its rows, each under
  its index label.\<close>

record raw_row =
  c_japanese :: cell
  c_kana :: cell
  c_division0 :: cell
  c_division1 :: cell
  c_type :: cell
  c_priority :: cell

definition columns :: "ustring list" where
  "columns = [ustr ''Japanese'', ustr ''Kana'', ustr ''Division0'', ustr ''Division1'',
     ustr ''Type'', ustr ''Priority'']"

text \<open>The construction of a term in the loop of \<open>Dictionary.check\<close>: the arguments are
  evaluated first, the last of them is \<open>int(row["Priority"])\<close>.\<close>

definition construct :: "unicode_db \<Rightarrow> raw_row \<Rightarrow> error + dterm" where
  "construct U row =
     bind_e (int_cell U (c_priority row)) (\<lambda>p.
       Term_init U (c_japanese row) (c_kana row) (c_division0 row) (c_division1 row)
         (c_type row) p)"

text \<open>The loop of \<open>Dictionary.check\<close> over the rows: a row whose construction raises
  \<open>ValueError\<close> is dropped and its label recorded in \<open>infos\<close>; any other exception is
  raised again. The result is the frame without the dropped rows, and the labels of
  the diagnostics.\<close>

fun check_rows :: "unicode_db \<Rightarrow> (int \<times> raw_row) list \<Rightarrow> error + ((int \<times> raw_row) list \<times> int list)" where
  "check_rows U [] = Inr ([], [])"
| "check_rows U ((idx, row) # rest) =
     (case construct U row of
        Inl e \<Rightarrow>
          if e = ValueError
          then bind_e (check_rows U rest) (\<lambda>(new_df, infos). Inr (new_df, idx # infos))
          else Inl e
      | Inr t \<Rightarrow>
          bind_e (check_rows U rest) (\<lambda>(new_df, infos). Inr ((idx, row) # new_df, infos)))"

text \<open>\<open>Dictionary.check\<close>: \<open>ValueError\<close> when a required column is missing.\<close>

definition check :: "unicode_db \<Rightarrow> ustring list \<Rightarrow> (int \<times> raw_row) list \<Rightarrow> error + ((int \<times> raw_row) list \<times> int list)" where
  "check U df_columns rows =
     (if \<not> set columns \<subseteq> set df_columns then Inl ValueError else check_rows U rows)"

section \<open>The dictionary: search and the tokenizer\<close>

text \<open>The two sort keys of \<open>search_to_token0\<close>: the length of the spelling without
  separators, and the length of its stem without separators.\<close>

definition len_jp :: "dterm \<Rightarrow> nat" where
  "len_jp row = length (remove_seps (t_jp row))"

definition len_jp_gokan :: "dterm \<Rightarrow> error + nat" where
  "len_jp_gokan row = bind_e (remove_gobi (t_jp row)) (\<lambda>g. Inr (length (remove_seps g)))"

fun gokan_keys :: "dataframe \<Rightarrow> error + (nat \<times> int \<times> dterm) list" where
  "gokan_keys [] = Inr []"
| "gokan_keys ((l, row) # rest) =
     bind_e (len_jp_gokan row) (\<lambda>n.
       bind_e (gokan_keys rest) (\<lambda>ks. Inr ((n, l, row) # ks)))"

text \<open>\<open>sort_values(by=["len_jp", "len_jp_gokan", "Priority"], ascending=[False, False,
  True])\<close>: a stable sort on the three keys, the first key the most significant; it is
  made of three stable sorts, the least significant key first.\<close>

definition sort_rows :: "(nat \<times> int \<times> dterm) list \<Rightarrow> (nat \<times> int \<times> dterm) list" where
  "sort_rows rows =
     sort_key (\<lambda>(n, l, row). - int (len_jp row))
       (sort_key (\<lambda>(n, l, row). - int n)
          (sort_key (\<lambda>(n, l, row). t_pri row) rows))"

text \<open>The loop of \<open>search_to_token0\<close> over the sorted rows: the first row whose
  template matches the line gives the tokens and the rest of the line.\<close>

type_synonym search_result = "bool \<times> token0 list option \<times> ustring"

fun search_rows :: "unicode_db \<Rightarrow> dterm list \<Rightarrow> ustring \<Rightarrow> error + search_result" where
  "search_rows U [] line = Inr (False, None, line)"
| "search_rows U (row # rest) line =
     bind_e (term_of_row U row) (\<lambda>t.
     bind_e (re_pattern U t) (\<lambda>pattern.
     bind_e (re_match pattern line) (\<lambda>result.
       case result of
         None \<Rightarrow> search_rows U rest line
       | Some m \<Rightarrow>
           bind_e (to_token0 U t (group m 1)) (\<lambda>tokens.
             Inr (True, Some tokens, group m 2)))))"

text \<open>\<open>Dictionary.search_to_token0\<close>: \<open>line[0]\<close> raises \<open>IndexError\<close> on the empty line.
  The rows are those whose spelling in lower case starts with the first character of
  the line in lower case and whose priority is the one asked for.\<close>

definition search_to_token0 :: "unicode_db \<Rightarrow> dataframe \<Rightarrow> ustring \<Rightarrow> int \<Rightarrow> error + search_result" where
  "search_to_token0 U df line priority =
     (case line of
        [] \<Rightarrow> Inl IndexError
      | init_char # _ \<Rightarrow>
          (let filtered = filter (\<lambda>(l, row). startswith (str_lower U (t_jp row)) (lower U init_char)
                                      \<and> t_pri row = priority) df
           in bind_e (gokan_keys filtered) (\<lambda>keyed.
                search_rows U (map (\<lambda>(n, l, row). row) (sort_rows keyed)) line)))"

text \<open>The compiled patterns of \<open>Dictionary.PATTERNS\<close>:
  \<open>^\(([^;\)]+?);([^;\)]+?);([^;\)]+?);([^;\)]+?)\)(.*)\<close> for an inline quadruple and
  \<open>^\[(\d+)\](.*)\<close> for a priority directive. The characters \<open>( ) ; [ ]\<close> are the code
  points 40, 41, 59, 91, 93; \<open>\d\<close> is a decimal digit of the character database.\<close>

definition custom_field :: rx where
  "custom_field = RLazyPlus (RNSet [59, 41])"

definition pattern_custom :: rx where
  "pattern_custom =
     seq_of [RBol, RLit 40, RGrp 1 custom_field, RLit 59, RGrp 2 custom_field, RLit 59,
             RGrp 3 custom_field, RLit 59, RGrp 4 custom_field, RLit 41, RGrp 5 (RStar RAny)]"

definition pattern_priority :: "unicode_db \<Rightarrow> rx" where
  "pattern_priority U =
     seq_of [RBol, RLit 91, RGrp 1 (RPlus (RPred (isdecimal U))), RLit 93, RGrp 2 (RStar RAny)]"

text \<open>The five doubled control characters \<open>$$ (( )) [[ ]]\<close>.\<close>

definition doubled :: "ustring list" where
  "doubled = [[36, 36], [40, 40], [41, 41], [91, 91], [93, 93]]"

text \<open>The inner loop of a \<open>$\<close>-span: every character up to the next \<open>$\<close> becomes a token;
  the result is the tokens and the line from that \<open>$\<close> on.\<close>

fun dollar_span :: "ustring \<Rightarrow> token0 list \<times> ustring" where
  "dollar_span [] = ([], [])"
| "dollar_span (c # cs) =
     (if c = 36 then ([], c # cs)
      else (case dollar_span cs of (ts, r) \<Rightarrow> (Token0 [c] # ts, r)))"

text \<open>The end of an iteration of \<open>line_to_tokens0\<close>: the dictionary search at the
  priority of the iteration, and a single-character token when nothing is found.\<close>

definition search_step :: "unicode_db \<Rightarrow> dataframe \<Rightarrow> token0 list \<Rightarrow> ustring \<Rightarrow> int \<Rightarrow> error + (token0 list \<times> ustring)" where
  "search_step U df tokens remaining_line priority =
     bind_e (search_to_token0 U df remaining_line priority) (\<lambda>(found, new_tokens, rest).
       if found then
         Inr (case new_tokens of None \<Rightarrow> tokens | Some ts \<Rightarrow> tokens @ ts, rest)
       else
         (case rest of
            [] \<Rightarrow> Inl IndexError
          | c # cs \<Rightarrow> Inr (tokens @ [Token0 [c]], cs)))"

text \<open>The inline quadruple inside \<open>try\<close>: a proper noun of priority 0 is built from the
  four fields and turned into tokens.\<close>

definition custom_tokens :: "unicode_db \<Rightarrow> match \<Rightarrow> error + token0 list" where
  "custom_tokens U m =
     bind_e (Term_init U (CStr (group m 1)) (CStr (group m 2)) (CStr (group m 3))
               (CStr (group m 4)) (CStr ty_koyuu) 0) (\<lambda>t.
       to_token0 U t (remove_seps (t_jp t)))"

text \<open>One iteration of the loop of \<open>line_to_tokens0\<close>, on a line that is not empty: the
  tokens and the remaining line after it. The bare \<open>except\<close> of the inline quadruple
  catches every exception and goes on to the search with the rest of the line.\<close>

definition line_step :: "unicode_db \<Rightarrow> dataframe \<Rightarrow> token0 list \<Rightarrow> ustring \<Rightarrow> error + (token0 list \<times> ustring)" where
  "line_step U df tokens remaining_line =
     (let custom_result = rx_match pattern_custom remaining_line;
          priority_result = rx_match (pattern_priority U) remaining_line
      in if take 2 remaining_line \<in> set doubled then
           search_step U df tokens (drop 1 remaining_line) 0
         else
           (case custom_result of
              Some m \<Rightarrow>
                (case custom_tokens U m of
                   Inr ts \<Rightarrow> Inr (tokens @ ts, group m 5)
                 | Inl e \<Rightarrow> search_step U df tokens (group m 5) 0)
            | None \<Rightarrow>
                (case priority_result of
                   Some m \<Rightarrow>
                     (case int_of_str U (group m 1) of
                        None \<Rightarrow> Inl ValueError
                      | Some priority \<Rightarrow> search_step U df tokens (group m 2) priority)
                 | None \<Rightarrow>
                     if hd remaining_line = 36 then
                       (case dollar_span (drop 1 remaining_line) of
                          (ts, r) \<Rightarrow>
                            Inr (tokens @ ts,
                                 if length r > 0 \<and> hd r = 36 then drop 1 r else r))
                     else search_step U df tokens remaining_line 0)))"

text \<open>\<open>Dictionary.line_to_tokens0\<close>. The loop ends when the remaining line is empty; it
  need not end, so it is given a number of iterations, and \<open>None\<close> is the result of a
  loop that has not ended within them.\<close>

fun line_loop :: "unicode_db \<Rightarrow> dataframe \<Rightarrow> nat \<Rightarrow> token0 list \<Rightarrow> ustring \<Rightarrow> error + token0 list option" where
  "line_loop U df fuel tokens [] = Inr (Some tokens)"
| "line_loop U df 0 tokens (c # cs) = Inr None"
| "line_loop U df (Suc fuel) tokens (c # cs) =
     bind_e (line_step U df tokens (c # cs)) (\<lambda>(tokens', remaining_line).
       line_loop U df fuel tokens' remaining_line)"

definition line_to_tokens0 :: "unicode_db \<Rightarrow> dataframe \<Rightarrow> nat \<Rightarrow> ustring \<Rightarrow> error + token0 list option" where
  "line_to_tokens0 U df fuel line = line_loop U df fuel [] line"

section \<open>Terms and lines of the examples\<close>

text \<open>The noun \<open>Tokyo\<close> at priority 1, its spelling, and the line \<open>[1]\<close> followed by that
  spelling; the token of the noun: its spelling, its reading \<open>toukyou\<close>, alignment 2.\<close>

definition tokyo1 :: dterm where
  "tokyo1 = tokyo_term \<lparr> t_pri := 1 \<rparr>"

definition tokyo_jp :: ustring where
  "tokyo_jp = [26481, 20140]"

definition tokyo_line :: ustring where
  "tokyo_line = ustr ''[1]'' @ tokyo_jp"

definition tokyo_token :: token0 where
  "tokyo_token = \<lparr> tk_jp = tokyo_jp, tk_kana = Some [12392, 12358, 12365, 12423, 12358],
     tk_alignment = 2 \<rparr>"

text \<open>The rows that \<open>search_to_token0\<close> keeps for a first character and a priority.\<close>

definition filtered_rows :: "unicode_db \<Rightarrow> dataframe \<Rightarrow> uchar \<Rightarrow> int \<Rightarrow> dataframe" where
  "filtered_rows U df init_char priority =
     filter (\<lambda>(l, row). startswith (str_lower U (t_jp row)) (lower U init_char)
                          \<and> t_pri row = priority) df"

text \<open>A line that ends in a priority directive, and a line that ends in an inline
  quadruple whose division \<open>9\<close> makes the term invalid.\<close>

definition directive_line :: ustring where
  "directive_line = ustr ''[1]''"

definition quadruple_line :: ustring where
  "quadruple_line = ustr ''(a;b;9;0)''"

text \<open>The noun spelled \<open>1+2\<close>, read \<open>san\<close>, and the same term as a proper noun.\<close>

definition plus_jp :: ustring where
  "plus_jp = ustr ''1+2''"

definition plus_term :: dterm where
  "plus_term = \<lparr> t_jp = plus_jp, t_kana = [12373, 12435], t_div0 = ustr ''1'',
     t_div1 = ustr ''0'', t_type = ty_meishi, t_pri = 0 \<rparr>"

definition plus_koyuu :: dterm where
  "plus_koyuu = plus_term \<lparr> t_type := ty_koyuu \<rparr>"

section \<open>Capture groups of a pattern\<close>

text \<open>Whether a pattern holds a capture group, and, for a pattern whose groups lie in
  sequence (none under an alternative or a quantifier), the numbers of its groups, last
  group first: every match captures exactly these.\<close>

primrec has_group :: "rx \<Rightarrow> bool" where
  "has_group (RLit c) = False"
| "has_group RAny = False"
| "has_group (RSet cs) = False"
| "has_group RBol = False"
| "has_group REol = False"
| "has_group (RSeq a b) = (has_group a \<or> has_group b)"
| "has_group REps = False"
| "has_group (RAlt a b) = (has_group a \<or> has_group b)"
| "has_group (RStar r) = has_group r"
| "has_group (RPlus r) = has_group r"
| "has_group (ROpt r) = has_group r"
| "has_group (RGrp n r) = True"
| "has_group (RNSet cs) = False"
| "has_group (RPred P) = False"
| "has_group (RNotAfter c) = False"
| "has_group (RLazyPlus r) = has_group r"

fun flat_caps :: "rx \<Rightarrow> nat list option" where
  "flat_caps (RSeq a b) =
     (case flat_caps a of
        None \<Rightarrow> None
      | Some x \<Rightarrow> (case flat_caps b of None \<Rightarrow> None | Some y \<Rightarrow> Some (y @ x)))"
| "flat_caps (RGrp n r) = (if has_group r then None else Some [n])"
| "flat_caps r = (if has_group r then None else Some [])"

section \<open>Rows of a bulk load\<close>

text \<open>What the construction of a term from a row does in \<open>check\<close>: the row is kept, it
  is dropped (the construction raises \<open>ValueError\<close>), or the load is aborted (it raises
  any other exception).\<close>

definition keeps :: "unicode_db \<Rightarrow> raw_row \<Rightarrow> bool" where
  "keeps U row = (case construct U row of Inl e \<Rightarrow> False | Inr t \<Rightarrow> True)"

definition drops :: "unicode_db \<Rightarrow> raw_row \<Rightarrow> bool" where
  "drops U row = (case construct U row of Inl e \<Rightarrow> e = ValueError | Inr t \<Rightarrow> False)"

definition aborts :: "unicode_db \<Rightarrow> raw_row \<Rightarrow> bool" where
  "aborts U row = (case construct U row of Inl e \<Rightarrow> e \<noteq> ValueError | Inr t \<Rightarrow> False)"

text \<open>A cell that holds a string, and a row whose spelling, reading and two divisions
  are strings and whose priority is not an infinite float.\<close>

definition is_str :: "cell \<Rightarrow> bool" where
  "is_str c = (case c of CStr s \<Rightarrow> True | _ \<Rightarrow> False)"

definition text_row :: "raw_row \<Rightarrow> bool" where
  "text_row row =
     (is_str (c_japanese row) \<and> is_str (c_kana row) \<and> is_str (c_division0 row) \<and>
      is_str (c_division1 row) \<and> c_priority row \<noteq> CInf)"

text \<open>The row of the noun \<open>Tokyo\<close>, the same row with an empty spelling cell, read from
  a file as \<open>nan\<close>, and a row whose division \<open>9\<close> is invalid.\<close>

definition tokyo_row :: raw_row where
  "tokyo_row = \<lparr> c_japanese = CStr [26481, 20140],
     c_kana = CStr [12392, 12358, 12365, 12423, 12358], c_division0 = CStr (ustr ''2''),
     c_division1 = CStr (ustr ''0''), c_type = CStr ty_meishi, c_priority = CNum 0 \<rparr>"

definition nan_row :: raw_row where
  "nan_row = tokyo_row \<lparr> c_japanese := CNaN \<rparr>"

definition bad_row :: raw_row where
  "bad_row = tokyo_row \<lparr> c_division0 := CStr (ustr ''9'') \<rparr>"

section \<open>Evaluation rules\<close>

lemma ustr_simps [simp]: "ustr [] = []" "ustr (c # cs) = of_char c # ustr cs"
  by (simp_all add: ustr_def)

lemmas ty_defs = ty_meishi_def ty_koyuu_def ty_godan_def ty_jouge_def ty_sahen_def
  ty_kahen_def ty_keiyou_def ty_eigo_def

lemmas rx_eval = re_match_def parse_rx_def new_frame_def normal_step_def push_item_def
  apply_quant_def close_group_def open_group_def frame_rx_def capture_def group_def
  lastindex_def is_ascii_alnum_def

lemmas char_eval = is_jp_str_def is_jp_char_def is_cjk_unified_def is_kana_def is_hiragana_def
  is_katakana_def is_jp_valid_str_def

lemmas ascii_eval = ascii_db_def ascii_isdigit_def ascii_isalpha_def ascii_lower_def
  ascii_upper_def ascii_int_of_str_def

lemmas ad_eval = auto_divide_def ending_split_def last_n_def but_last_n_def gobi_list_def
  kana_ru_def kana_suru_def kana_i_def kuru_jp_def kuru_kana_def
  divide_stem_def jp_runs_def kana_pattern_def kanji_choices_def combos_def markers_def
  candidate_def remove_char_def div0_digit_def generate_insertions_def dedup_def assemble_def

section \<open>Splitting and joining\<close>

lemma split_on_ne [simp]: "split_on d s \<noteq> []"
  by (induction s) (auto split: list.splits)

lemma split_on_append: "split_on d (a @ d # b) = split_on d a @ split_on d b"
proof (induction a)
  case Nil
  show ?case by simp
next
  case (Cons c a)
  obtain p ps where sp: "split_on d a = p # ps"
    by (cases "split_on d a") (use split_on_ne in auto)
  show ?case using Cons sp by simp
qed

lemma split_on_notin: "d \<notin> set a \<Longrightarrow> split_on d a = [a]"
  by (induction a) auto

lemma length_split_on_pos [simp]: "0 < length (split_on d s)"
  using split_on_ne[of d s] by (cases "split_on d s") auto

lemma split_on_join:
  "xs \<noteq> [] \<Longrightarrow> split_on d (join [d] xs) = concat (map (split_on d) xs)"
proof (induction xs rule: induct_list012)
  case 1
  then show ?case by simp
next
  case (2 x)
  then show ?case by simp
next
  case (3 x y ys)
  then show ?case by (simp add: split_on_append)
qed

lemma set_join: "set (join sep xs) \<subseteq> set sep \<union> \<Union> (set ` set xs)"
  by (induction sep xs rule: join.induct) auto

lemma zeros_replicate: "0 < n \<Longrightarrow> zeros (join [92] (replicate n [48]))"
proof -
  assume n: "0 < n"
  have ne: "replicate n [48::nat] \<noteq> []" using n by simp
  have c: "concat (map (split_on 92) (replicate n [48])) = replicate n [48]" for n
    by (induction n) auto
  have a: "split_on 92 (join [92] (replicate n [48])) = replicate n [48]"
    by (simp add: split_on_join[OF ne] c)
  have b: "set (join [92] (replicate n [48])) \<subseteq> {48, 92}"
  proof -
    have "\<Union> (set ` set (replicate n [48::nat])) \<subseteq> {48}"
      by (auto split: if_splits)
    then show ?thesis
      using set_join[of "[92]" "replicate n [48]"] by fastforce
  qed
  show ?thesis unfolding zeros_def using a b by (simp add: list_all_iff)
qed

lemma candidate_zeros: "candidate jc k kc = Some q \<Longrightarrow> zeros (div1_of q)"
  by (auto simp: candidate_def Let_def div1_of_def split: if_splits intro!: zeros_replicate)

lemma insertion_loop_zeros:
  "insertion_loop jc k kcs acc = Some r \<Longrightarrow> \<forall>q\<in>set acc. zeros (div1_of q) \<Longrightarrow> \<forall>q\<in>set r. zeros (div1_of q)"
proof (induction jc k kcs acc rule: insertion_loop.induct)
  case (1 jc k acc)
  then show ?case by simp
next
  case (2 jc k kc rest acc)
  then show ?case by (auto split: option.splits dest: candidate_zeros)
qed

lemma zeros_0: "zeros (ustr ''0'')"
  by (simp add: zeros_def)

lemma combo_loop_zeros:
  "combo_loop j k cs acc = Inr (Some r) \<Longrightarrow> \<forall>q\<in>set acc. zeros (div1_of q) \<Longrightarrow> \<forall>q\<in>set r. zeros (div1_of q)"
proof (induction j k cs acc rule: combo_loop.induct)
  case (1 j k acc)
  then show ?case by simp
next
  case (2 j k combo rest acc)
  show ?case
  proof (cases "length acc \<ge> 2000")
    case True
    with 2(4) show ?thesis by simp
  next
    case c1: False
    show ?thesis
    proof (cases "count_list combo [47, 92] > 1")
      case True
      with 2 c1 show ?thesis by simp
    next
      case c2: False
      show ?thesis
      proof (cases "length k < length j")
        case True
        have "\<forall>q\<in>set (acc @ [(j, k, ustr ''1'', ustr ''0'')]). zeros (div1_of q)"
          using 2(5) zeros_0 by (auto simp: div1_of_def)
        with 2(2)[OF c1 c2 True] 2(4) c1 c2 True show ?thesis by simp
      next
        case c3: False
        obtain acc' where il: "insertion_loop (zip_longest_join j combo) k
                (generate_insertions combo [] (length k - length j)) acc = Some acc'"
          using 2(4) c1 c2 c3 by (auto split: option.splits)
        have z: "\<forall>q\<in>set acc'. zeros (div1_of q)"
          using insertion_loop_zeros[OF il 2(5)] .
        have "combo_loop j k rest acc' = Inr (Some r)"
          using 2(4) c1 c2 c3 il by simp
        with 2(3)[OF c1 c2 c3 il] z show ?thesis by simp
      qed
    qed
  qed
qed

lemma kanji_choices_zeros:
  "kanji_choices j k = Inr (Some cs) \<Longrightarrow> q \<in> set cs \<Longrightarrow> zeros (div1_of q)"
  using combo_loop_zeros[of j k _ "[]" cs] zeros_0
  by (auto simp: kanji_choices_def Let_def div1_of_def split: if_splits)

section \<open>Division strings of the candidates\<close>

lemma zeros_d1_ok: "zeros d \<Longrightarrow> d1_ok d"
  by (auto simp: zeros_def d1_ok_def list_all_iff)

lemma minus1_d1_ok: "d1_ok (ustr ''-1'')"
  by (simp add: d1_ok_def)

lemma parts_loop_ok:
  "parts_loop runs ks = Inr (Some parts) \<Longrightarrow>
     length parts = length runs \<and> (\<forall>p\<in>set parts. \<forall>q\<in>set p. d1_ok (div1_of q))"
proof (induction runs ks arbitrary: parts rule: parts_loop.induct)
  case (1 ks)
  then show ?case by simp
next
  case (2 j k rest)
  then show ?case by simp
next
  case (3 j k rest kg kanas)
  obtain part ps where
    a: "(if k then Inr (Some [(j, kg, ustr ''-1'', ustr ''-1'')]) else kanji_choices j kg) = Inr (Some part)"
    and b: "parts_loop rest kanas = Inr (Some ps)" and c: "parts = part # ps"
    using 3(2) by (auto split: sum.splits option.splits if_splits)
  have p: "\<forall>q\<in>set part. d1_ok (div1_of q)"
  proof (cases k)
    case True
    with a have "part = [(j, kg, ustr ''-1'', ustr ''-1'')]" by simp
    then show ?thesis using minus1_d1_ok by (simp add: div1_of_def)
  next
    case False
    with a have "kanji_choices j kg = Inr (Some part)" by simp
    then show ?thesis using kanji_choices_zeros zeros_d1_ok by blast
  qed
  from 3(1)[OF a refl b] p c show ?case by simp
qed

lemma set_dedup_from: "set (dedup_from seen xs) = set xs - set seen"
  by (induction seen xs rule: dedup_from.induct) auto

lemma set_dedup [simp]: "set (dedup xs) = set xs"
  by (simp add: dedup_def set_dedup_from)

lemma runs_loop_ne [simp]: "runs_loop cur cs \<noteq> []"
  by (induction cur cs rule: runs_loop.induct) auto

lemma d1_ok_join:
  "xs \<noteq> [] \<Longrightarrow> \<forall>x\<in>set xs. d1_ok x \<Longrightarrow> d1_ok (join [92] xs)"
proof -
  assume ne: "xs \<noteq> []" and ok: "\<forall>x\<in>set xs. d1_ok x"
  have "42 \<notin> set (join [92] xs)"
    using set_join[of "[92]" xs] ok by (auto simp: d1_ok_def)
  moreover have "list_all (\<lambda>t. t = ustr ''0'' \<or> t = ustr ''-1'') (concat (map (split_on 92) xs))"
    using ok by (auto simp: d1_ok_def list_all_iff)
  ultimately show ?thesis
    unfolding d1_ok_def by (simp only: split_on_join[OF ne]) simp
qed

lemma div_digits_plain:
  "d1_ok d \<Longrightarrow> list_all (\<lambda>t. t = ustr ''0'' \<or> t = ustr ''-1'') (div_digits d)"
  by (simp add: d1_ok_def div_digits_def split_on_notin)

lemma div_digits_gobi:
  "d1_ok d \<Longrightarrow> list_all (\<lambda>t. t = ustr ''0'' \<or> t = ustr ''-1'') (div_digits (d @ ustr ''*-1''))"
proof -
  assume ok: "d1_ok d"
  have "split_on 42 (d @ 42 # [45, 49]) = [d] @ [[45, 49]]"
    using ok by (simp only: split_on_append) (simp add: d1_ok_def split_on_notin)
  then show ?thesis using ok by (simp add: div_digits_def d1_ok_def)
qed

lemma assemble_div1:
  "div1_of (assemble jg kg combo) =
     (case (jg, kg) of
        (Some a, Some b) \<Rightarrow> join [92] (map div1_of combo) @ ustr ''*-1''
      | _ \<Rightarrow> join [92] (map div1_of combo))"
proof -
  have m: "map (\<lambda>(a, b, c, d). d) combo = map div1_of combo"
    by (rule map_cong) (auto simp: div1_of_def)
  show ?thesis
    unfolding assemble_def Let_def m
    by (cases jg; cases kg) (simp_all add: div1_of_def)
qed

lemma assemble_ok:
  assumes "combo \<noteq> []" and "\<forall>q\<in>set combo. d1_ok (div1_of q)"
  shows "list_all (\<lambda>t. t = ustr ''0'' \<or> t = ustr ''-1'') (div_digits (div1_of (assemble jg kg combo)))"
proof -
  have j: "d1_ok (join [92] (map div1_of combo))"
    using assms by (intro d1_ok_join) auto
  show ?thesis
    unfolding assemble_div1
    using div_digits_plain[OF j] div_digits_gobi[OF j]
    by (cases jg; cases kg) (simp_all only: prod.case option.case)
qed

lemma divide_stem_ok:
  assumes "divide_stem js jg ks kg = Inr (Some res)" and "q \<in> set res"
  shows "list_all (\<lambda>t. t = ustr ''0'' \<or> t = ustr ''-1'') (div_digits (div1_of q))"
proof -
  obtain runs where r: "jp_runs js = Inr runs"
    using assms(1) by (auto simp: divide_stem_def split: sum.splits)
  have rne: "runs \<noteq> []" using r by (auto simp: jp_runs_def split: list.splits)
  obtain kl parts where pl: "parts_loop runs kl = Inr (Some parts)"
    and res: "res = map (assemble jg kg) (product_lists (map dedup parts))"
    using assms r by (auto simp: divide_stem_def split: sum.splits option.splits)
  from parts_loop_ok[OF pl] have len: "length parts = length runs"
    and ok: "\<forall>p\<in>set parts. \<forall>q\<in>set p. d1_ok (div1_of q)" by auto
  obtain combo where cm: "combo \<in> set (product_lists (map dedup parts))" and q: "q = assemble jg kg combo"
    using assms(2) res by auto
  have l2: "list_all2 (\<lambda>x ys. x \<in> set ys) combo (map dedup parts)"
    using cm by (simp add: product_lists_set)
  have cne: "combo \<noteq> []" using l2 len rne by (auto simp: list_all2_conv_all_nth)
  have "\<forall>x\<in>set combo. d1_ok (div1_of x)"
  proof
    fix x assume "x \<in> set combo"
    then obtain i where i: "i < length combo" "combo ! i = x" by (auto simp: in_set_conv_nth)
    with l2 have "x \<in> set (parts ! i)" "i < length parts"
      by (auto simp: list_all2_conv_all_nth)
    with ok show "d1_ok (div1_of x)" by (metis nth_mem)
  qed
  with cne q show ?thesis using assemble_ok by blast
qed

lemma auto_divide_cases:
  assumes "auto_divide U jp kana ty = Inr (Some res)"
  shows "(\<exists>js jg ks kg. divide_stem js jg ks kg = Inr (Some res)) \<or>
         (\<exists>a b c. res = [(a, b, c, ustr ''0'')])"
proof -
  have e: "ending_split n ok jp kana = Inr (Some res) \<Longrightarrow>
      \<exists>js jg ks kg. divide_stem js jg ks kg = Inr (Some res)" for n ok
    by (auto simp: ending_split_def split: if_splits)
  show ?thesis
    using assms unfolding auto_divide_def
    by (simp split: if_splits) (use e in blast)+
qed

lemma auto_divide_ok:
  assumes "auto_divide U jp kana ty = Inr (Some res)" and "q \<in> set res"
  shows "list_all (\<lambda>t. t = ustr ''0'' \<or> t = ustr ''-1'') (div_digits (div1_of q))"
proof -
  have simple: "list_all (\<lambda>t. t = ustr ''0'' \<or> t = ustr ''-1'') (div_digits (div1_of (a, b, c, ustr ''0'')))" for a b c :: ustring
    by (simp add: div_digits_def div1_of_def)
  from auto_divide_cases[OF assms(1)] show ?thesis
  proof
    assume "\<exists>js jg ks kg. divide_stem js jg ks kg = Inr (Some res)"
    then show ?thesis using divide_stem_ok assms(2) by blast
  next
    assume "\<exists>a b c. res = [(a, b, c, ustr ''0'')]"
    then show ?thesis using simple assms(2) by auto
  qed
qed

section \<open>The cap on the candidates of a run\<close>

lemma insertion_loop_acc:
  "insertion_loop jc k kcs acc =
     (case insertion_loop jc k kcs [] of None \<Rightarrow> None | Some xs \<Rightarrow> Some (acc @ xs))"
proof (induction kcs arbitrary: acc)
  case Nil
  show ?case by simp
next
  case (Cons kc kcs)
  show ?case
  proof (cases "candidate jc k kc")
    case None
    then show ?thesis by simp
  next
    case (Some q)
    show ?thesis
      using Some Cons[of "acc @ [q]"] Cons[of "[q]"] by (simp split: option.splits)
  qed
qed

lemma combo_loop_step:
  "combo_loop j k (c # rest) acc =
     (if length acc \<ge> 2000 then Inl AutoDivisionChoiceOverflowError
      else case combo_step j k c of
             None \<Rightarrow> Inr None
           | Some xs \<Rightarrow> combo_loop j k rest (acc @ xs))"
  by (simp add: combo_step_def insertion_loop_acc[of _ _ _ acc] split: option.splits)

lemmas combo_loop_eval = combo_loop.simps(2)

declare combo_loop.simps(2) [simp del]

lemma run_candidates_simps [simp]:
  "run_candidates j k [] = []"
  "run_candidates j k (c # cs) = (case combo_step j k c of None \<Rightarrow> [] | Some xs \<Rightarrow> xs) @ run_candidates j k cs"
  "run_candidates j k (cs @ ds) = run_candidates j k cs @ run_candidates j k ds"
  by (simp_all add: run_candidates_def)

lemma combo_loop_Some:
  "combo_loop j k cs acc = Inr (Some r) \<Longrightarrow>
     r = acc @ run_candidates j k cs \<and>
     (\<forall>n<length cs. length (acc @ run_candidates j k (take n cs)) < 2000)"
proof (induction cs arbitrary: acc)
  case Nil
  then show ?case by simp
next
  case (Cons c cs)
  from Cons.prems have a: "length acc < 2000"
    by (simp add: combo_loop_step split: if_splits)
  from Cons.prems a obtain xs where s: "combo_step j k c = Some xs"
    and l: "combo_loop j k cs (acc @ xs) = Inr (Some r)"
    by (auto simp: combo_loop_step split: option.splits)
  from Cons.IH[OF l] have r: "r = (acc @ xs) @ run_candidates j k cs"
    and b: "\<forall>n<length cs. length ((acc @ xs) @ run_candidates j k (take n cs)) < 2000" by auto
  have "length (acc @ run_candidates j k (take n (c # cs))) < 2000" if "n < length (c # cs)" for n
  proof (cases n)
    case 0
    then show ?thesis using a by simp
  next
    case (Suc m)
    then show ?thesis using b that s by simp
  qed
  then show ?case using r s by simp
qed

lemma combo_loop_Inl:
  "combo_loop j k cs acc = Inl e \<Longrightarrow>
     e = AutoDivisionChoiceOverflowError \<and>
     (\<exists>n<length cs. 2000 \<le> length (acc @ run_candidates j k (take n cs)))"
proof (induction cs arbitrary: acc)
  case Nil
  then show ?case by simp
next
  case (Cons c cs)
  show ?case
  proof (cases "length acc \<ge> 2000")
    case True
    then have "e = AutoDivisionChoiceOverflowError" using Cons.prems by (simp add: combo_loop_step)
    moreover have "2000 \<le> length (acc @ run_candidates j k (take 0 (c # cs)))" using True by simp
    ultimately show ?thesis by blast
  next
    case False
    with Cons.prems obtain xs where s: "combo_step j k c = Some xs"
      and l: "combo_loop j k cs (acc @ xs) = Inl e"
      by (auto simp: combo_loop_step split: option.splits)
    from Cons.IH[OF l] obtain n where n: "n < length cs"
      "2000 \<le> length ((acc @ xs) @ run_candidates j k (take n cs))"
      and e: "e = AutoDivisionChoiceOverflowError" by auto
    have "2000 \<le> length (acc @ run_candidates j k (take (Suc n) (c # cs)))"
      using n s by simp
    then show ?thesis using e n(1) by (intro conjI exI[of _ "Suc n"]) auto
  qed
qed

lemma combo_loop_overflow:
  "n < length cs \<Longrightarrow> 2000 \<le> length (acc @ run_candidates j k (take n cs)) \<Longrightarrow>
   \<forall>c\<in>set (take n cs). combo_step j k c \<noteq> None \<Longrightarrow>
   combo_loop j k cs acc = Inl AutoDivisionChoiceOverflowError"
proof (induction cs arbitrary: acc n)
  case Nil
  then show ?case by simp
next
  case (Cons c cs)
  show ?case
  proof (cases "length acc \<ge> 2000")
    case True
    then show ?thesis by (simp add: combo_loop_step)
  next
    case False
    then obtain m where m: "n = Suc m" using Cons.prems(2) by (cases n) auto
    from Cons.prems(3) m obtain xs where s: "combo_step j k c = Some xs" by auto
    have "combo_loop j k cs (acc @ xs) = Inl AutoDivisionChoiceOverflowError"
      using Cons.prems m s by (intro Cons.IH[of m]) auto
    then show ?thesis using False s by (simp add: combo_loop_step)
  qed
qed

lemma combo_loop_cap_ok:
  "\<forall>c\<in>set cs. combo_step j k c \<noteq> None \<Longrightarrow>
   cap_ok (map (\<lambda>c. length (the (combo_step j k c))) cs) (length acc) \<Longrightarrow>
   combo_loop j k cs acc = Inr (Some (acc @ run_candidates j k cs))"
proof (induction cs arbitrary: acc)
  case Nil
  then show ?case by simp
next
  case (Cons c cs)
  from Cons.prems(1) obtain xs where s: "combo_step j k c = Some xs" by auto
  have "combo_loop j k cs (acc @ xs) = Inr (Some ((acc @ xs) @ run_candidates j k cs))"
    using Cons.prems s by (intro Cons.IH) auto
  then show ?case using Cons.prems(2) s by (simp add: combo_loop_step)
qed

lemma length_split_on: "length (split_on d s) = Suc (count_list s d)"
proof (induction s)
  case Nil
  show ?case by simp
next
  case (Cons c s)
  obtain p ps where sp: "split_on d s = p # ps"
    by (cases "split_on d s") (use split_on_ne in auto)
  show ?case using Cons sp by auto
qed

lemma count_remove_char: "d \<noteq> e \<Longrightarrow> count_list (remove_char e s) d = count_list s d"
  by (induction s) (auto simp: remove_char_def)

lemma count_list_append [simp]: "count_list (xs @ ys) d = count_list xs d + count_list ys d"
  by (induction xs) auto

lemma count_zip_longest_join:
  "count_list (zip_longest_join s ms) d = count_list s d + count_list (concat ms) d"
  by (induction s ms rule: zip_longest_join.induct) auto

lemma combinations_length: "ys \<in> set (combinations xs n) \<Longrightarrow> length ys = n"
  by (induction xs n arbitrary: ys rule: combinations.induct) auto

lemma length_combinations: "length (combinations xs n) = length xs choose n"
  by (induction xs n rule: combinations.induct) auto

lemma concat_gi_build:
  "concat (gi_build is idx origin []) =
     concat (take (length (filter (\<lambda>i. i \<notin> set idx) is)) origin)"
proof (induction "is" arbitrary: origin)
  case Nil
  show ?case by simp
next
  case (Cons i "is")
  show ?case
  proof (cases "i \<in> set idx")
    case True
    then show ?thesis using Cons by simp
  next
    case False
    then show ?thesis using Cons by (cases origin) auto
  qed
qed

lemma filter_mem_le: "distinct xs \<Longrightarrow> length (filter (\<lambda>i. i \<in> set ys) xs) \<le> length ys"
proof -
  assume d: "distinct xs"
  have "length (filter (\<lambda>i. i \<in> set ys) xs) = card ({x. x \<in> set ys} \<inter> set xs)"
    using d by (rule distinct_length_filter)
  also have "\<dots> \<le> card (set ys)"
    by (rule card_mono) auto
  also have "\<dots> \<le> length ys" by (rule card_length)
  finally show ?thesis .
qed

lemma concat_insertion:
  assumes "kc \<in> set (generate_insertions combo [] n)"
  shows "concat kc = concat combo"
proof -
  let ?m = "length combo"
  from assms obtain idx where idx: "idx \<in> set (combinations [0..<?m + n] n)"
    and kc: "kc = gi_build [0..<?m + n] idx combo []"
    by (auto simp: generate_insertions_def Let_def)
  have li: "length idx = n" using combinations_length[OF idx] .
  have "length (filter (\<lambda>i. i \<in> set idx) [0..<?m + n]) \<le> n"
    using filter_mem_le[of "[0..<?m + n]" idx] li by simp
  moreover have "length (filter (\<lambda>i. i \<in> set idx) [0..<?m + n]) +
      length (filter (\<lambda>i. i \<notin> set idx) [0..<?m + n]) = ?m + n"
    using sum_length_filter_compl[of "\<lambda>i. i \<in> set idx" "[0..<?m + n]"] by simp
  ultimately have "?m \<le> length (filter (\<lambda>i. i \<notin> set idx) [0..<?m + n])" by linarith
  then show ?thesis unfolding kc concat_gi_build by simp
qed

lemma candidate_Some:
  assumes "count_list j 47 = count_list k 47" and "kc \<in> set (generate_insertions combo [] n)"
  shows "candidate (zip_longest_join j combo) k kc \<noteq> None"
proof -
  have "length (split_on 47 (remove_char 92 (zip_longest_join j combo))) =
        length (split_on 47 (remove_char 92 (zip_longest_join k kc)))"
    using assms(1) concat_insertion[OF assms(2)]
    by (simp add: length_split_on count_remove_char count_zip_longest_join)
  then show ?thesis by (simp add: candidate_def Let_def)
qed

lemma insertion_loop_all:
  "\<forall>kc\<in>set kcs. candidate jc k kc \<noteq> None \<Longrightarrow>
     \<exists>r. insertion_loop jc k kcs acc = Some r \<and> length r = length acc + length kcs"
proof (induction kcs arbitrary: acc)
  case Nil
  show ?case by simp
next
  case (Cons kc kcs)
  from Cons.prems obtain q where q: "candidate jc k kc = Some q" by auto
  from Cons.prems have "\<forall>kc\<in>set kcs. candidate jc k kc \<noteq> None" by simp
  from Cons.IH[OF this, of "acc @ [q]"] show ?case using q by simp
qed

lemma combo_step_count:
  assumes "count_list j 47 = count_list k 47"
  shows "\<exists>xs. combo_step j k c = Some xs \<and> length xs = step_count j k c"
proof -
  let ?n = "length k - length j"
  have "\<forall>kc\<in>set (generate_insertions c [] ?n). candidate (zip_longest_join j c) k kc \<noteq> None"
    using candidate_Some[OF assms] by blast
  from insertion_loop_all[OF this, of "[]"]
  obtain r where r: "insertion_loop (zip_longest_join j c) k (generate_insertions c [] ?n) [] = Some r"
    and l: "length r = length (generate_insertions c [] ?n)" by auto
  have "length (generate_insertions c [] ?n) = (length c + ?n) choose ?n"
    by (simp add: generate_insertions_def Let_def length_combinations)
  with r l show ?thesis
    by (simp add: combo_step_def step_count_def)
qed

lemma combo_step_not_None: "count_list j 47 = count_list k 47 \<Longrightarrow> combo_step j k c \<noteq> None"
  using combo_step_count[of j k c] by auto

lemma length_combo_step:
  "count_list j 47 = count_list k 47 \<Longrightarrow> length (the (combo_step j k c)) = step_count j k c"
  using combo_step_count[of j k c] by auto

lemma length_run_candidates:
  "count_list j 47 = count_list k 47 \<Longrightarrow>
     length (run_candidates j k cs) = sum_list (map (step_count j k) cs)"
proof (induction cs)
  case Nil
  show ?case by simp
next
  case (Cons c cs)
  then show ?case using combo_step_count[of j k c] by auto
qed

lemma cap_ok_steps:
  assumes "count_list j 47 = count_list k 47" and "cap_ok (map (step_count j k) cs) (length acc)"
  shows "combo_loop j k cs acc = Inr (Some (acc @ run_candidates j k cs))"
proof -
  have m: "map (\<lambda>c. length (the (combo_step j k c))) cs = map (step_count j k) cs"
    using length_combo_step[OF assms(1)] by simp
  have "\<forall>c\<in>set cs. combo_step j k c \<noteq> None"
    using combo_step_not_None[OF assms(1)] by blast
  moreover have "cap_ok (map (\<lambda>c. length (the (combo_step j k c))) cs) (length acc)"
    unfolding m using assms(2) .
  ultimately show ?thesis by (rule combo_loop_cap_ok)
qed

lemma combos_2: "combos 2 =
  [[[47], [47]], [[47], [47, 92]], [[47], []],
   [[47, 92], [47]], [[47, 92], [47, 92]], [[47, 92], []],
   [[], [47]], [[], [47, 92]], [[], []]]"
  by (simp add: combos_def markers_def numeral_2_eq_2)

lemma choose_23_21: "(23::nat) choose 21 = 253"
  using binomial_symmetric[of 21 23] by (simp add: choose_two)

lemma cap3_counts: "count_list cap3_jp 47 = count_list cap3_kana 47"
  by (simp add: cap3_jp_def cap3_kana_def)

lemma cap3_steps: "map (step_count cap3_jp cap3_kana) (combos 2) =
   [253, 253, 253, 253, 0, 253, 253, 253, 253]"
  by (simp add: combos_2 step_count_def cap3_jp_def cap3_kana_def choose_23_21)

lemma cap3_accumulated: "length (run_candidates cap3_jp cap3_kana (combos 2)) = 2024"
  by (simp add: length_run_candidates[OF cap3_counts] cap3_steps)

lemma cap3_choices:
  "kanji_choices cap3_jp cap3_kana = Inr (Some (run_candidates cap3_jp cap3_kana (combos 2)))"
proof -
  have "combo_loop cap3_jp cap3_kana (combos 2) [] =
      Inr (Some ([] @ run_candidates cap3_jp cap3_kana (combos 2)))"
    by (rule cap_ok_steps[OF cap3_counts]) (simp add: cap3_steps)
  moreover have "min (int (length cap3_jp) - 1) (int (length cap3_kana) - 1) = 2"
    by (simp add: cap3_jp_def cap3_kana_def)
  ultimately show ?thesis by (simp add: kanji_choices_def)
qed

lemma parse_any: "parse_rx (ustr ''^(.+)$'') = Some (RSeq RBol (RSeq (RGrp 1 (RPlus RAny)) REol))"
  by (simp add: rx_eval)

lemma cap3_match: "re_match (ustr ''^(.+)$'') cap3_kana = Inr (Some [(1, cap3_kana)])"
  unfolding re_match_def parse_any
  by (simp add: cap3_kana_def capture_def)

section \<open>The digits of a kanji run\<close>

lemma length_zip_longest_join:
  "length (zip_longest_join s ms) = length s + length (concat ms)"
  by (induction s ms rule: zip_longest_join.induct) auto

lemma insertion_loop_mem:
  "insertion_loop jc k kcs acc = Some xs \<Longrightarrow> c \<in> set xs \<Longrightarrow>
     c \<in> set acc \<or> (\<exists>kc\<in>set kcs. candidate jc k kc = Some c)"
proof (induction kcs arbitrary: acc)
  case Nil
  then show ?case by simp
next
  case (Cons kc kcs)
  from Cons.prems(1) obtain q where q: "candidate jc k kc = Some q"
    and l: "insertion_loop jc k kcs (acc @ [q]) = Some xs"
    by (auto split: option.splits)
  from Cons.IH[OF l Cons.prems(2)] q show ?case by auto
qed

lemma div0_digit_eq: "div0_digit = length_digit"
  by (auto simp: fun_eq_iff div0_digit_def length_digit_def)

lemma candidate_run_ok:
  assumes "candidate (zip_longest_join j combo) k kc = Some c"
    and "kc \<in> set (generate_insertions combo [] n)"
    and "2 \<le> length j" "2 \<le> length k" "\<not> length k < length j"
  shows "run_ok c"
proof -
  let ?js = "zip_longest_join j combo" and ?ks = "zip_longest_join k kc"
  have lj: "length ?js = length j + length (concat combo)"
    by (rule length_zip_longest_join)
  have lk: "length ?ks = length k + length (concat combo)"
    using concat_insertion[OF assms(2)] by (simp add: length_zip_longest_join)
  from assms(1) have c: "c = (?js, ?ks,
      join (ustr ''/'') (map2 div0_digit (split_on 47 (remove_char 92 ?js)) (split_on 47 (remove_char 92 ?ks))),
      join [92] (replicate (length (split_on 92 (remove_char 47 ?js))) (ustr ''0'')))"
    by (auto simp: candidate_def Let_def split: if_splits)
  have z: "zeros (div1_of c)" using candidate_zeros[OF assms(1)] .
  have "div0_of c = div0_by_length (jp_of c) (kana_of c)"
    unfolding c div0_of_def jp_of_def kana_of_def div0_by_length_def prod.case div0_digit_eq
    using lj lk assms(3-5) by simp
  with z show ?thesis by (simp add: run_ok_def)
qed

lemma combo_step_run_ok:
  assumes "combo_step j k combo = Some xs" and "c \<in> set xs"
    and "2 \<le> length j" "2 \<le> length k"
  shows "run_ok c"
proof (cases "count_list combo [47, 92] > 1")
  case True
  then show ?thesis using assms by (simp add: combo_step_def)
next
  case c1: False
  show ?thesis
  proof (cases "length k < length j")
    case True
    then have "c = (j, k, ustr ''1'', ustr ''0'')" using assms c1 by (auto simp: combo_step_def)
    then show ?thesis using assms(3,4) True
      by (simp add: run_ok_def zeros_def div1_of_def div0_of_def jp_of_def kana_of_def div0_by_length_def)
  next
    case False
    then have "insertion_loop (zip_longest_join j combo) k
        (generate_insertions combo [] (length k - length j)) [] = Some xs"
      using assms(1) c1 by (simp add: combo_step_def)
    from insertion_loop_mem[OF this assms(2)] obtain kc
      where "kc \<in> set (generate_insertions combo [] (length k - length j))"
        and "candidate (zip_longest_join j combo) k kc = Some c" by auto
    then show ?thesis using candidate_run_ok assms(3,4) False by blast
  qed
qed

lemma run_candidates_mem:
  "c \<in> set (run_candidates j k cs) \<Longrightarrow>
     \<exists>combo xs. combo_step j k combo = Some xs \<and> c \<in> set xs"
  by (auto simp: run_candidates_def split: option.splits) metis

lemma kanji_choices_run_ok:
  assumes "kanji_choices j k = Inr (Some cs)" and "c \<in> set cs"
  shows "run_ok c"
proof -
  let ?r = "min (int (length j) - 1) (int (length k) - 1)"
  show ?thesis
  proof (cases "?r = 0")
    case True
    then have "c = (j, k, ustr ''0'', ustr ''0'')" using assms by (auto simp: kanji_choices_def)
    moreover have "length j = 1 \<or> length k = 1" using True by (auto simp: min_def split: if_splits)
    ultimately show ?thesis
      by (auto simp: run_ok_def zeros_def div1_of_def div0_of_def jp_of_def kana_of_def div0_by_length_def)
  next
    case False
    then have pos: "0 < ?r" and l: "combo_loop j k (combos (nat ?r)) [] = Inr (Some cs)"
      using assms(1) by (auto simp: kanji_choices_def Let_def split: if_splits)
    from pos have len: "2 \<le> length j" "2 \<le> length k" by auto
    from combo_loop_Some[OF l] have "cs = run_candidates j k (combos (nat ?r))" by simp
    with assms(2) run_candidates_mem obtain combo xs
      where "combo_step j k combo = Some xs" "c \<in> set xs" by blast
    then show ?thesis using combo_step_run_ok len by blast
  qed
qed

lemma parts_loop_runs:
  "parts_loop runs ks = Inr (Some parts) \<Longrightarrow>
     length parts = length runs \<and>
     (\<forall>i<length runs. \<forall>c\<in>set (parts ! i).
        if snd (runs ! i) then kana_part (fst (runs ! i)) c else run_ok c)"
proof (induction runs ks arbitrary: parts rule: parts_loop.induct)
  case (1 ks)
  then show ?case by simp
next
  case (2 j k rest)
  then show ?case by simp
next
  case (3 j k rest kg kanas)
  obtain part ps where
    a: "(if k then Inr (Some [(j, kg, ustr ''-1'', ustr ''-1'')]) else kanji_choices j kg) = Inr (Some part)"
    and b: "parts_loop rest kanas = Inr (Some ps)" and c: "parts = part # ps"
    using 3(2) by (auto split: sum.splits option.splits if_splits)
  have p: "\<forall>c\<in>set part. if k then kana_part j c else run_ok c"
  proof (cases k)
    case True
    with a have "part = [(j, kg, ustr ''-1'', ustr ''-1'')]" by simp
    then show ?thesis using True
      by (simp add: kana_part_def jp_of_def div0_of_def div1_of_def)
  next
    case False
    with a have "kanji_choices j kg = Inr (Some part)" by simp
    then show ?thesis using False by (auto intro: kanji_choices_run_ok)
  qed
  from 3(1)[OF a refl b] have len: "length ps = length rest"
    and ih: "\<forall>i<length rest. \<forall>c\<in>set (ps ! i).
        if snd (rest ! i) then kana_part (fst (rest ! i)) c else run_ok c" by auto
  have "\<forall>c\<in>set ((part # ps) ! i).
        if snd (((j, k) # rest) ! i) then kana_part (fst (((j, k) # rest) ! i)) c else run_ok c"
    if "i < length ((j, k) # rest)" for i
  proof (cases i)
    case 0
    then show ?thesis using p by simp
  next
    case (Suc m)
    then show ?thesis using ih that by simp
  qed
  then show ?case using len c by simp
qed

lemma assemble_div0:
  "div0_of (assemble jg kg combo) =
     (case (jg, kg) of
        (Some a, Some b) \<Rightarrow> join (ustr ''/'') (map div0_of combo) @ ustr ''*-1''
      | _ \<Rightarrow> join (ustr ''/'') (map div0_of combo))"
proof -
  have m: "map (\<lambda>(a, b, c, d). c) combo = map div0_of combo"
    by (rule map_cong) (auto simp: div0_of_def)
  show ?thesis
    unfolding assemble_def Let_def m
    by (cases jg; cases kg) (simp_all add: div0_of_def)
qed

lemma divide_stem_runs:
  assumes "divide_stem js jg ks kg = Inr (Some res)" and "q \<in> set res"
  shows "\<exists>runs combo. jp_runs js = Inr runs \<and> length combo = length runs \<and>
           q = assemble jg kg combo \<and>
           (\<forall>i<length runs.
              if snd (runs ! i) then kana_part (fst (runs ! i)) (combo ! i) else run_ok (combo ! i))"
proof -
  obtain runs where r: "jp_runs js = Inr runs"
    using assms(1) by (auto simp: divide_stem_def split: sum.splits)
  obtain kl parts where pl: "parts_loop runs kl = Inr (Some parts)"
    and res: "res = map (assemble jg kg) (product_lists (map dedup parts))"
    using assms r by (auto simp: divide_stem_def split: sum.splits option.splits)
  from parts_loop_runs[OF pl] have len: "length parts = length runs"
    and ok: "\<forall>i<length runs. \<forall>c\<in>set (parts ! i).
        if snd (runs ! i) then kana_part (fst (runs ! i)) c else run_ok c" by auto
  obtain combo where cm: "combo \<in> set (product_lists (map dedup parts))" and q: "q = assemble jg kg combo"
    using assms(2) res by auto
  have l2: "list_all2 (\<lambda>x ys. x \<in> set ys) combo (map dedup parts)"
    using cm by (simp add: product_lists_set)
  then have lc: "length combo = length runs" using len by (auto simp: list_all2_conv_all_nth)
  have "if snd (runs ! i) then kana_part (fst (runs ! i)) (combo ! i) else run_ok (combo ! i)"
    if "i < length runs" for i
  proof -
    have "combo ! i \<in> set (parts ! i)"
      using l2 that len lc by (auto simp: list_all2_conv_all_nth)
    then show ?thesis using ok that by blast
  qed
  then show ?thesis using r lc q by blast
qed

lemma auto_divide_stem:
  assumes "auto_divide U jp kana term_type = Inr (Some res)"
    and "term_type \<noteq> ty_eigo" "term_type \<noteq> ty_kahen"
  shows "\<exists>jg kg. divide_stem (but_last_n (gobi_length term_type) jp) jg
            (but_last_n (gobi_length term_type) kana) kg = Inr (Some res) \<and>
          (jg = None \<longleftrightarrow> gobi_length term_type = 0) \<and> (kg = None \<longleftrightarrow> jg = None)"
proof -
  have d: "ty_godan \<noteq> ty_jouge" "ty_godan \<noteq> ty_sahen" "ty_godan \<noteq> ty_keiyou"
    "ty_jouge \<noteq> ty_sahen" "ty_jouge \<noteq> ty_keiyou" "ty_sahen \<noteq> ty_keiyou"
    "ty_meishi \<noteq> ty_godan" "ty_meishi \<noteq> ty_jouge" "ty_meishi \<noteq> ty_sahen" "ty_meishi \<noteq> ty_keiyou"
    "ty_koyuu \<noteq> ty_godan" "ty_koyuu \<noteq> ty_jouge" "ty_koyuu \<noteq> ty_sahen" "ty_koyuu \<noteq> ty_keiyou"
    by (simp_all add: ty_defs)
  have b0: "but_last_n 0 s = s" for s :: ustring by (simp add: but_last_n_def)
  consider (godan) "term_type = ty_godan" | (jouge) "term_type = ty_jouge"
    | (sahen) "term_type = ty_sahen" | (keiyou) "term_type = ty_keiyou"
    | (meishi) "term_type = ty_meishi" | (koyuu) "term_type = ty_koyuu"
    | (other) "term_type \<notin> {ty_godan, ty_jouge, ty_sahen, ty_keiyou, ty_meishi, ty_koyuu}"
    by blast
  then show ?thesis
  proof cases
    case godan
    then show ?thesis using assms d
      by (auto simp: auto_divide_def ending_split_def gobi_length_def split: if_splits)
  next
    case jouge
    then show ?thesis using assms d
      by (auto simp: auto_divide_def ending_split_def gobi_length_def split: if_splits)
  next
    case sahen
    then show ?thesis using assms d
      by (auto simp: auto_divide_def ending_split_def gobi_length_def split: if_splits)
  next
    case keiyou
    then show ?thesis using assms d
      by (auto simp: auto_divide_def ending_split_def gobi_length_def split: if_splits)
  next
    case meishi
    then show ?thesis using assms d
      by (auto simp: auto_divide_def gobi_length_def b0 split: if_splits)
  next
    case koyuu
    then show ?thesis using assms d
      by (auto simp: auto_divide_def gobi_length_def b0 split: if_splits)
  next
    case other
    then show ?thesis using assms
      by (auto simp: auto_divide_def split: if_splits)
  qed
qed

subsection \<open>The cap of 2000 candidates through the call\<close>

lemma kanji_choices_Inl:
  assumes "kanji_choices j k = Inl AutoDivisionChoiceOverflowError"
  shows "\<exists>n<length (combos (repeat_of j k)).
           2000 \<le> length (run_candidates j k (take n (combos (repeat_of j k))))"
proof -
  from assms have "combo_loop j k (combos (repeat_of j k)) [] = Inl AutoDivisionChoiceOverflowError"
    by (auto simp: kanji_choices_def repeat_of_def Let_def split: if_splits)
  from combo_loop_Inl[OF this] show ?thesis by simp
qed

lemma kanji_choices_complete:
  assumes "kanji_choices j k = Inr (Some cs)"
  shows "cs = (if repeat_of j k = 0 then [(j, k, ustr ''0'', ustr ''0'')]
               else run_candidates j k (combos (repeat_of j k)))"
proof -
  define r where "r = min (int (length j) - 1) (int (length k) - 1)"
  have kc: "kanji_choices j k = (if r = 0 then Inr (Some [(j, k, ustr ''0'', ustr ''0'')])
         else if r < 0 then Inl ValueError else combo_loop j k (combos (nat r)) [])"
    unfolding kanji_choices_def r_def Let_def ..
  have ro: "repeat_of j k = nat r" unfolding repeat_of_def r_def ..
  consider "r = 0" | "r < 0" | "0 < r" by linarith
  then show ?thesis
  proof cases
    case 1
    then show ?thesis using assms kc ro by simp
  next
    case 2
    then show ?thesis using assms kc by simp
  next
    case 3
    then have "combo_loop j k (combos (repeat_of j k)) [] = Inr (Some cs)"
      using assms kc ro by simp
    from combo_loop_Some[OF this] 3 ro show ?thesis by simp
  qed
qed

lemma parts_loop_Inl:
  "parts_loop runs kl = Inl e \<Longrightarrow> e = IndexError \<or> (\<exists>j k. kanji_choices j k = Inl e)"
proof (induction runs kl rule: parts_loop.induct)
  case (1 ks)
  then show ?case by simp
next
  case (2 j k rest)
  then show ?case by simp
next
  case (3 j k rest kg kanas)
  show ?case
  proof (cases "(if k then Inr (Some [(j, kg, ustr ''-1'', ustr ''-1'')]) else kanji_choices j kg)")
    case (Inl e')
    then have "e' = e" using 3(2) by simp
    with Inl show ?thesis by (auto split: if_splits)
  next
    case (Inr r)
    show ?thesis
    proof (cases r)
      case None
      with Inr 3(2) show ?thesis by simp
    next
      case (Some part)
      with Inr 3(2) have "parts_loop rest kanas = Inl e"
        by (auto split: sum.splits option.splits)
      with 3(1)[OF Inr Some] show ?thesis by simp
    qed
  qed
qed

lemma parts_loop_complete:
  "parts_loop runs kl = Inr (Some parts) \<Longrightarrow> i < length runs \<Longrightarrow> \<not> snd (runs ! i) \<Longrightarrow>
     kanji_choices (fst (runs ! i)) (kl ! i) = Inr (Some (parts ! i))"
proof (induction runs kl arbitrary: parts i rule: parts_loop.induct)
  case (1 ks)
  then show ?case by simp
next
  case (2 j k rest)
  then show ?case by simp
next
  case (3 j k rest kg kanas)
  obtain part ps where
    a: "(if k then Inr (Some [(j, kg, ustr ''-1'', ustr ''-1'')]) else kanji_choices j kg) = Inr (Some part)"
    and b: "parts_loop rest kanas = Inr (Some ps)" and c: "parts = part # ps"
    using 3(2) by (auto split: sum.splits option.splits if_splits)
  show ?case
  proof (cases i)
    case 0
    then show ?thesis using a c 3(4) by (auto split: if_splits)
  next
    case (Suc m)
    then show ?thesis using 3(1)[OF a refl b, of m] 3(3,4) c by simp
  qed
qed

lemma divide_stem_Inl:
  "divide_stem js jg ks kg = Inl e \<Longrightarrow>
     e = IndexError \<or> e = ReError \<or> (\<exists>j k. kanji_choices j k = Inl e)"
proof -
  assume a: "divide_stem js jg ks kg = Inl e"
  have rm: "re_match p s = Inl e' \<Longrightarrow> e' = ReError" for p s e'
    by (auto simp: re_match_def split: option.splits list.splits)
  show ?thesis
  proof (cases "jp_runs js")
    case (Inl e')
    then show ?thesis using a by (auto simp: divide_stem_def jp_runs_def split: list.splits)
  next
    case (Inr runs)
    show ?thesis
    proof (cases "re_match (kana_pattern runs) ks")
      case (Inl e')
      then show ?thesis using a Inr rm by (auto simp: divide_stem_def)
    next
      case r: (Inr m)
      then obtain kl where "parts_loop runs kl = Inl e"
        using a Inr by (auto simp: divide_stem_def split: option.splits sum.splits)
      then show ?thesis using parts_loop_Inl by blast
    qed
  qed
qed

lemma auto_divide_Inl:
  "auto_divide U jp kana ty = Inl e \<Longrightarrow>
     e = AutoDivisionDisabledError \<or> (\<exists>js jg ks kg. divide_stem js jg ks kg = Inl e)"
  by (auto simp: auto_divide_def ending_split_def split: if_splits)

lemma divide_stem_Some:
  "divide_stem js jg ks kg = Inr (Some res) \<Longrightarrow>
     res = [] \<or> (\<exists>runs kl parts. jp_runs js = Inr runs \<and> parts_loop runs kl = Inr (Some parts) \<and>
        res = map (assemble jg kg) (product_lists (map dedup parts)))"
  by (auto simp: divide_stem_def split: sum.splits option.splits)

lemma parts_loop_raise:
  "i < length runs \<Longrightarrow> length runs \<le> length kl \<Longrightarrow> \<not> snd (runs ! i) \<Longrightarrow>
   kanji_choices (fst (runs ! i)) (kl ! i) = Inl e \<Longrightarrow>
   (\<forall>m<i. \<not> snd (runs ! m) \<longrightarrow> (\<exists>p. kanji_choices (fst (runs ! m)) (kl ! m) = Inr (Some p))) \<Longrightarrow>
   parts_loop runs kl = Inl e"
proof (induction runs kl arbitrary: i rule: parts_loop.induct)
  case (1 ks)
  then show ?case by simp
next
  case (2 j k rest)
  then show ?case by simp
next
  case (3 j k rest kg kanas)
  show ?case
  proof (cases i)
    case 0
    then show ?thesis using 3(4,5) by simp
  next
    case (Suc m)
    obtain part where
      a: "(if k then Inr (Some [(j, kg, ustr ''-1'', ustr ''-1'')]) else kanji_choices j kg) = Inr (Some part)"
      using 3(6)[rule_format, of 0] Suc by (cases k) auto
    have "parts_loop rest kanas = Inl e"
    proof (rule 3(1)[OF a refl])
      show "m < length rest" using 3(2) Suc by simp
      show "length rest \<le> length kanas" using 3(3) by simp
      show "\<not> snd (rest ! m)" using 3(4) Suc by simp
      show "kanji_choices (fst (rest ! m)) (kanas ! m) = Inl e" using 3(5) Suc by simp
      show "\<forall>n<m. \<not> snd (rest ! n) \<longrightarrow> (\<exists>p. kanji_choices (fst (rest ! n)) (kanas ! n) = Inr (Some p))"
      proof (intro allI impI)
        fix n assume "n < m" "\<not> snd (rest ! n)"
        then show "\<exists>p. kanji_choices (fst (rest ! n)) (kanas ! n) = Inr (Some p)"
          using 3(6)[rule_format, of "Suc n"] Suc by simp
      qed
    qed
    then show ?thesis using a by simp
  qed
qed

lemma cap3_runs: "jp_runs cap3_jp = Inr [(cap3_jp, False)]"
  by (simp add: cap3_jp_def ad_eval char_eval)

lemma cap3_pattern: "kana_pattern [(cap3_jp, False)] = ustr ''^(.+)$''"
  by (simp add: ad_eval ustr_simps)

lemma cap3_jp_str: "is_jp_str ascii_db cap3_jp" "is_jp_str ascii_db cap3_kana" "is_jp_str ascii_db cap26_kana"
  by (simp_all add: cap3_jp_def cap3_kana_def cap26_kana_def char_eval ascii_eval)

lemma cap3_stem:
  "divide_stem cap3_jp None cap3_kana None =
     Inr (Some (map (assemble None None)
       (product_lists [dedup (run_candidates cap3_jp cap3_kana (combos 2))])))"
  unfolding divide_stem_def cap3_runs sum.case cap3_pattern cap3_match option.case
  by (simp add: lastindex_def group_def cap3_choices)

lemma cap3_call:
  "auto_divide ascii_db cap3_jp cap3_kana ty_meishi =
     Inr (Some (map (assemble None None)
       (product_lists [dedup (run_candidates cap3_jp cap3_kana (combos 2))])))"
proof -
  have "cap3_jp \<noteq> []" "cap3_kana \<noteq> []" by (simp_all add: cap3_jp_def cap3_kana_def)
  then show ?thesis
    unfolding auto_divide_def using cap3_jp_str cap3_stem by (simp add: ty_defs)
qed

lemma choose_25_23: "(25::nat) choose 23 = 300"
  using binomial_symmetric[of 23 25] by (simp add: choose_two)

lemma cap26_counts: "count_list cap3_jp 47 = count_list cap26_kana 47"
  by (simp add: cap3_jp_def cap26_kana_def)

lemma cap26_steps: "map (step_count cap3_jp cap26_kana) (combos 2) =
   [300, 300, 300, 300, 0, 300, 300, 300, 300]"
  by (simp add: combos_2 step_count_def cap3_jp_def cap26_kana_def choose_25_23)

lemma cap26_head: "length (run_candidates cap3_jp cap26_kana (take 8 (combos 2))) = 2100"
proof -
  have "map (step_count cap3_jp cap26_kana) (take 8 (combos 2)) =
      take 8 (map (step_count cap3_jp cap26_kana) (combos 2))" by (simp add: take_map)
  then show ?thesis
    by (simp add: length_run_candidates[OF cap26_counts] cap26_steps)
qed

lemma cap26_match: "re_match (ustr ''^(.+)$'') cap26_kana = Inr (Some [(1, cap26_kana)])"
  unfolding re_match_def parse_any
  by (simp add: cap26_kana_def capture_def)


section \<open>Ids of the dictionary\<close>

lemma main_dic_eq: "main_dic = \<lparr> dic = [(0, tokyo_term)], index = 1 \<rparr>"
  by (simp add: main_dic_def append_dic_def init_dic_def is_exists_def loc_set_def labels_def)

lemma copied_dic_eq: "copied_dic = \<lparr> dic = [(0, tokyo_term)], index = 0 \<rparr>"
  by (simp add: copied_dic_def copy_dic_def update_dic_def init_dic_def main_dic_eq)

lemma tokyo_kyoto: "t_jp kyoto_term \<noteq> t_jp tokyo_term"
  by (simp add: tokyo_term_def kyoto_term_def)

lemma ids_below_iff: "ids_below d \<longleftrightarrow> (\<forall>l\<in>set (labels (dic d)). l < index d)"
  by (simp add: ids_below_def list_all_iff)

lemma ids_below_init: "ids_below (init_dic df)"
proof (cases df)
  case Nil
  then show ?thesis by (simp add: ids_below_iff init_dic_def labels_def)
next
  case (Cons a as)
  have "l \<le> Max (set (labels df))" if "l \<in> set (labels df)" for l
    using that by (intro Max_ge) simp_all
  then show ?thesis using Cons by (auto simp: ids_below_iff init_dic_def intro: le_imp_less_Suc[THEN less_le_trans] simp: less_Suc_eq_le)
qed

lemma drop_label_fresh: "i \<notin> set (labels df) \<Longrightarrow> drop_label i df = df"
  by (induction df) (auto simp: drop_label_def labels_def)

lemma labels_drop: "set (labels (drop_label i df)) \<subseteq> set (labels df)"
  by (auto simp: drop_label_def labels_def)

lemma append_dic_new:
  assumes "ids_below d" "\<not> is_exists d t"
  shows "append_dic d t = (Some (index d), d \<lparr> dic := dic d @ [(index d, t)], index := index d + 1 \<rparr>)"
    and "index d \<notin> set (labels (dic d))"
proof -
  show f: "index d \<notin> set (labels (dic d))" using assms(1) by (auto simp: ids_below_iff)
  then show "append_dic d t = (Some (index d), d \<lparr> dic := dic d @ [(index d, t)], index := index d + 1 \<rparr>)"
    using assms(2) by (simp add: append_dic_def loc_set_def)
qed

lemma ids_below_append: "ids_below d \<Longrightarrow> ids_below (snd (append_dic d t))"
proof (cases "is_exists d t")
  case True
  assume "ids_below d"
  with True show ?thesis by (simp add: append_dic_def)
next
  case False
  assume a: "ids_below d"
  show ?thesis unfolding append_dic_new(1)[OF a False]
    using a by (auto simp: ids_below_iff labels_def)
qed

lemma ids_below_remove: "ids_below d \<Longrightarrow> ids_below (snd (remove_dic d i))"
  using labels_drop[of i "dic d"] by (auto simp: remove_dic_def ids_below_iff)

lemma index_append: "index d \<le> index (snd (append_dic d t))"
  by (simp add: append_dic_def)

lemma index_remove: "index (snd (remove_dic d i)) = index d"
  by (simp add: remove_dic_def)

lemma labels_append: "set (labels (dic (snd (append_dic d t)))) \<subseteq> insert (index d) (set (labels (dic d)))"
  by (auto simp: append_dic_def loc_set_def labels_def split: if_splits)

lemma run_ops_ids:
  "run_ops d ops = (d', ids) \<Longrightarrow>
     sorted_wrt (<) ids \<and> (\<forall>i\<in>set ids. index d \<le> i \<and> i < index d') \<and> index d \<le> index d'"
proof (induction d ops arbitrary: d' ids rule: run_ops.induct)
  case (1 d)
  then show ?case by simp
next
  case (2 d t ops)
  show ?case
  proof (cases "is_exists d t")
    case True
    then have a: "append_dic d t = (None, d)" by (simp add: append_dic_def)
    with 2(3) have "run_ops d ops = (d', ids)" by simp
    from 2(1)[OF a[symmetric] refl this] show ?thesis .
  next
    case False
    define e where "e = d \<lparr> dic := loc_set (dic d) (index d) t, index := index d + 1 \<rparr>"
    have a: "append_dic d t = (Some (index d), e)" using False by (simp add: append_dic_def e_def)
    obtain d2 ids2 where r: "run_ops e ops = (d2, ids2)" by (cases "run_ops e ops")
    with 2(3) a have eq: "d' = d2" "ids = index d # ids2" by simp_all
    from 2(2)[OF a[symmetric] refl r]
    have ih: "sorted_wrt (<) ids2" "\<forall>i\<in>set ids2. index e \<le> i \<and> i < index d2" "index e \<le> index d2"
      by simp_all
    have ie: "index e = index d + 1" by (simp add: e_def)
    show ?thesis using ih unfolding eq ie by auto
  qed
next
  case (3 d i ops)
  from 3(2) have "run_ops (snd (remove_dic d i)) ops = (d', ids)" by simp
  from 3(1)[OF this] show ?case by (simp add: index_remove)
qed

lemma run_ops_below:
  "run_ops d ops = (d', ids) \<Longrightarrow> ids_below d \<Longrightarrow> ids_below d'"
proof (induction d ops arbitrary: d' ids rule: run_ops.induct)
  case (1 d)
  then show ?case by simp
next
  case (2 d t ops)
  obtain r e where a: "append_dic d t = (r, e)" by (cases "append_dic d t")
  have b: "ids_below e" using ids_below_append[OF 2(4), of t] a by simp
  show ?case
  proof (cases r)
    case None
    with 2(3) a have "run_ops e ops = (d', ids)" by simp
    from 2(1)[OF a[symmetric, unfolded None] refl this b] show ?thesis .
  next
    case (Some i)
    obtain d2 ids2 where r: "run_ops e ops = (d2, ids2)" by (cases "run_ops e ops")
    with 2(3) a Some have "d' = d2" by simp
    with 2(2)[OF a[symmetric, unfolded Some] refl r b] show ?thesis by simp
  qed
next
  case (3 d i ops)
  from 3(2) have "run_ops (snd (remove_dic d i)) ops = (d', ids)" by simp
  from 3(1)[OF this ids_below_remove[OF 3(3)]] show ?case .
qed


section \<open>Claims about \<open>auto_divide\<close>\<close>

lemma kutabireru:
  "auto_divide ascii_db [33609, 33253, 12428, 12427] [12367, 12383, 12403, 12428, 12427] ty_jouge
     = Inr (Some kutabireru_result)"
  by (simp add: ad_eval combo_loop_eval ty_defs char_eval rx_eval upt_rec ascii_eval kutabireru_result_def)

lemma kutabi_run:
  "kanji_choices [33609, 33253] [12367, 12383, 12403] = Inr (Some kutabi_choices)"
  by (simp add: ad_eval combo_loop_eval upt_rec kutabi_choices_def)



text \<open>
  Claim C7, as stated: \<open>auto_divide\<close> of yomu (godan) includes the candidate with spelling
  \<open>yo/mu\<close> in kanji, reading \<open>yo/mu\<close>, division0 \<open>0/0\<close> and division1 \<open>0\<close>. The code
  returns one candidate, and it is another one: the ending is split off with \<open>*\<close> and
  carries the digit \<open>-1\<close>.
\<close>
theorem auto_divide_yomu_counterexample:
  "auto_divide ascii_db yomu_jp yomu_kana ty_godan = Inr (Some [yomu_candidate])
   \<and> ([35501, 47, 12416], [12424, 47, 12416], ustr ''0/0'', ustr ''0'') \<notin> set [yomu_candidate]"
  by (simp add: ad_eval ty_defs char_eval rx_eval yomu_jp_def yomu_kana_def yomu_candidate_def)

text \<open>
  Claim C7, amended: for every Unicode table, \<open>auto_divide\<close> of yomu (godan) returns
  exactly one candidate, with spelling \<open>yo*mu\<close> in kanji, reading \<open>yo*mu\<close>, division0
  \<open>0*-1\<close> and division1 \<open>0*-1\<close>.
\<close>

theorem auto_divide_yomu:
  "auto_divide U yomu_jp yomu_kana ty_godan = Inr (Some [yomu_candidate])"
  by (simp add: ad_eval ty_defs char_eval rx_eval yomu_jp_def yomu_kana_def yomu_candidate_def)

text \<open>The witness: the same call with the ASCII tables.\<close>

theorem auto_divide_yomu_witness:
  "auto_divide ascii_db yomu_jp yomu_kana ty_godan = Inr (Some [yomu_candidate])"
  by (rule auto_divide_yomu)


text \<open>
  Claim C9, as stated: \<open>auto_divide\<close> returns \<open>None\<close> whenever the ending check of the
  type fails. On the strings \<open>abc\<close>, \<open>abc\<close> with type godan the ending check fails
  (\<open>c\<close> is no godan ending), and the call raises \<open>AutoDivisionDisabledError\<close>: the
  charset check comes first.
\<close>
theorem auto_divide_none_counterexample:
  "last_n 1 (ustr ''abc'') \<notin> set gobi_list
   \<and> auto_divide ascii_db (ustr ''abc'') (ustr ''abc'') ty_godan = Inl AutoDivisionDisabledError"
  by (simp add: ad_eval ty_defs char_eval ascii_eval)

lemma auto_divide_none_part:
  assumes "jp = [] \<or> kana = [] \<or>
    (is_jp_str U jp \<and> is_jp_str U kana \<and>
      ((term_type = ty_godan \<and> (last_n 1 jp \<noteq> last_n 1 kana \<or> last_n 1 jp \<notin> set gobi_list)) \<or>
       (term_type = ty_jouge \<and> (last_n 1 jp \<noteq> kana_ru \<or> last_n 1 kana \<noteq> kana_ru)) \<or>
       (term_type = ty_sahen \<and> (last_n 2 jp \<noteq> kana_suru \<or> last_n 2 kana \<noteq> kana_suru)) \<or>
       (term_type = ty_keiyou \<and> (last_n 1 jp \<noteq> kana_i \<or> last_n 1 kana \<noteq> kana_i)) \<or>
       (term_type = ty_kahen \<and> (jp \<noteq> kuru_jp \<or> kana \<noteq> kuru_kana)) \<or>
       term_type \<notin> {ty_meishi, ty_koyuu, ty_godan, ty_jouge, ty_sahen, ty_kahen, ty_keiyou, ty_eigo}))"
  shows "auto_divide U jp kana term_type = Inr None"
proof (cases "jp = [] \<or> kana = []")
  case True
  then show ?thesis by (auto simp: auto_divide_def)
next
  case ne: False
  have d: "ty_godan \<noteq> ty_jouge" "ty_godan \<noteq> ty_sahen" "ty_godan \<noteq> ty_kahen" "ty_godan \<noteq> ty_keiyou"
    "ty_jouge \<noteq> ty_sahen" "ty_jouge \<noteq> ty_kahen" "ty_jouge \<noteq> ty_keiyou"
    "ty_sahen \<noteq> ty_kahen" "ty_sahen \<noteq> ty_keiyou" "ty_kahen \<noteq> ty_keiyou"
    "ty_keiyou \<noteq> ty_godan" "ty_keiyou \<noteq> ty_jouge" "ty_keiyou \<noteq> ty_sahen" "ty_keiyou \<noteq> ty_kahen"
    "ty_sahen \<noteq> ty_godan" "ty_sahen \<noteq> ty_jouge" "ty_kahen \<noteq> ty_godan" "ty_kahen \<noteq> ty_jouge"
    "ty_kahen \<noteq> ty_sahen" "ty_jouge \<noteq> ty_godan"
    by (simp_all add: ty_defs)
  from assms ne have js: "is_jp_str U jp" "is_jp_str U kana" by blast+
  have pre: "\<not> (length jp = 0 \<or> length kana = 0)"
    "\<not> (term_type \<notin> {ty_eigo, ty_koyuu} \<and> \<not> (is_jp_str U jp \<and> is_jp_str U kana))"
    using ne js by auto
  from assms ne consider
      (godan) "term_type = ty_godan" "last_n 1 jp \<noteq> last_n 1 kana \<or> last_n 1 jp \<notin> set gobi_list"
    | (jouge) "term_type = ty_jouge" "last_n 1 jp \<noteq> kana_ru \<or> last_n 1 kana \<noteq> kana_ru"
    | (sahen) "term_type = ty_sahen" "last_n 2 jp \<noteq> kana_suru \<or> last_n 2 kana \<noteq> kana_suru"
    | (keiyou) "term_type = ty_keiyou" "last_n 1 jp \<noteq> kana_i \<or> last_n 1 kana \<noteq> kana_i"
    | (kahen) "term_type = ty_kahen" "jp \<noteq> kuru_jp \<or> kana \<noteq> kuru_kana"
    | (unknown) "term_type \<notin> {ty_meishi, ty_koyuu, ty_godan, ty_jouge, ty_sahen, ty_kahen, ty_keiyou, ty_eigo}"
    by blast
  then show ?thesis
  proof cases
    case godan
    then show ?thesis
      using js ne d by (auto simp: auto_divide_def ending_split_def)
  next
    case jouge
    then show ?thesis
      using js ne d by (auto simp: auto_divide_def ending_split_def)
  next
    case sahen
    then show ?thesis
      using js ne d by (auto simp: auto_divide_def ending_split_def)
  next
    case keiyou
    then show ?thesis
      using js ne d by (auto simp: auto_divide_def ending_split_def)
  next
    case kahen
    then show ?thesis
      using js ne d by (auto simp: auto_divide_def)
  next
    case unknown
    then have "term_type \<noteq> ty_godan" "term_type \<noteq> ty_jouge" "term_type \<noteq> ty_sahen"
      "term_type \<noteq> ty_kahen" "term_type \<noteq> ty_keiyou" "term_type \<noteq> ty_meishi"
      "term_type \<noteq> ty_koyuu" "term_type \<noteq> ty_eigo" by auto
    then show ?thesis
      using js ne by (simp add: auto_divide_def)
  qed
qed

lemma auto_divide_raises_part:
  assumes "jp \<noteq> []" "kana \<noteq> []" "term_type \<noteq> ty_eigo"
    and "\<not> (is_jp_str U jp \<and> is_jp_str U kana)"
  shows "auto_divide U jp kana term_type = Inl AutoDivisionDisabledError"
proof (cases "term_type = ty_koyuu")
  case True
  then show ?thesis using assms by (simp add: auto_divide_def ty_defs)
next
  case False
  then show ?thesis using assms by (simp add: auto_divide_def)
qed

text \<open>
  Claim C9, amended: \<open>auto_divide\<close> returns \<open>None\<close> when the spelling or the reading is
  empty; and, when both consist of characters of the Japanese charset only, when the
  ending check of the type fails (godan: the last characters differ or the last
  character is none of the nine endings; ichidan: the last character is not ru; sahen:
  the last two characters are not suru; adjective: the last character is not i; kahen:
  the strings are not the verb kuru) or when the label is none of the eight types.
  When both strings are non-empty, one of them holds a character outside the Japanese
  charset and the type is not English, the call raises \<open>AutoDivisionDisabledError\<close>
  instead, whatever the ending: the charset guard comes before every ending check.
\<close>

theorem auto_divide_none:
  "((jp = [] \<or> kana = [] \<or>
    (is_jp_str U jp \<and> is_jp_str U kana \<and>
      ((term_type = ty_godan \<and> (last_n 1 jp \<noteq> last_n 1 kana \<or> last_n 1 jp \<notin> set gobi_list)) \<or>
       (term_type = ty_jouge \<and> (last_n 1 jp \<noteq> kana_ru \<or> last_n 1 kana \<noteq> kana_ru)) \<or>
       (term_type = ty_sahen \<and> (last_n 2 jp \<noteq> kana_suru \<or> last_n 2 kana \<noteq> kana_suru)) \<or>
       (term_type = ty_keiyou \<and> (last_n 1 jp \<noteq> kana_i \<or> last_n 1 kana \<noteq> kana_i)) \<or>
       (term_type = ty_kahen \<and> (jp \<noteq> kuru_jp \<or> kana \<noteq> kuru_kana)) \<or>
       term_type \<notin> {ty_meishi, ty_koyuu, ty_godan, ty_jouge, ty_sahen, ty_kahen, ty_keiyou, ty_eigo})))
     \<longrightarrow> auto_divide U jp kana term_type = Inr None)
   \<and> (jp \<noteq> [] \<and> kana \<noteq> [] \<and> term_type \<noteq> ty_eigo \<and> \<not> (is_jp_str U jp \<and> is_jp_str U kana)
     \<longrightarrow> auto_divide U jp kana term_type = Inl AutoDivisionDisabledError)"
  using auto_divide_none_part[of jp kana U term_type]
        auto_divide_raises_part[of jp kana term_type U]
  by blast

text \<open>The witness: yomu with the type ichidan, whose last character is not ru, returns
  \<open>None\<close>; the strings \<open>abc\<close>, \<open>abc\<close> with the type godan raise.\<close>

theorem auto_divide_none_witness:
  "((yomu_jp = [] \<or> yomu_kana = [] \<or>
    (is_jp_str ascii_db yomu_jp \<and> is_jp_str ascii_db yomu_kana \<and>
      ((ty_jouge = ty_godan \<and> (last_n 1 yomu_jp \<noteq> last_n 1 yomu_kana \<or> last_n 1 yomu_jp \<notin> set gobi_list)) \<or>
       (ty_jouge = ty_jouge \<and> (last_n 1 yomu_jp \<noteq> kana_ru \<or> last_n 1 yomu_kana \<noteq> kana_ru)) \<or>
       (ty_jouge = ty_sahen \<and> (last_n 2 yomu_jp \<noteq> kana_suru \<or> last_n 2 yomu_kana \<noteq> kana_suru)) \<or>
       (ty_jouge = ty_keiyou \<and> (last_n 1 yomu_jp \<noteq> kana_i \<or> last_n 1 yomu_kana \<noteq> kana_i)) \<or>
       (ty_jouge = ty_kahen \<and> (yomu_jp \<noteq> kuru_jp \<or> yomu_kana \<noteq> kuru_kana)) \<or>
       ty_jouge \<notin> {ty_meishi, ty_koyuu, ty_godan, ty_jouge, ty_sahen, ty_kahen, ty_keiyou, ty_eigo})))
   \<and> auto_divide ascii_db yomu_jp yomu_kana ty_jouge = Inr None)
   \<and> (ustr ''abc'' \<noteq> [] \<and> ty_godan \<noteq> ty_eigo
        \<and> \<not> (is_jp_str ascii_db (ustr ''abc'') \<and> is_jp_str ascii_db (ustr ''abc''))
        \<and> auto_divide ascii_db (ustr ''abc'') (ustr ''abc'') ty_godan = Inl AutoDivisionDisabledError)"
proof -
  have h: "is_jp_str ascii_db yomu_jp \<and> is_jp_str ascii_db yomu_kana \<and> last_n 1 yomu_jp \<noteq> kana_ru"
    by (simp add: char_eval yomu_jp_def yomu_kana_def last_n_def kana_ru_def)
  have g: "ustr ''abc'' \<noteq> [] \<and> ty_godan \<noteq> ty_eigo
        \<and> \<not> (is_jp_str ascii_db (ustr ''abc'') \<and> is_jp_str ascii_db (ustr ''abc''))"
    by (simp add: char_eval ty_defs ascii_eval)
  show ?thesis
    using h g auto_divide_none[of yomu_jp yomu_kana ascii_db ty_jouge]
      auto_divide_none[of "ustr ''abc''" "ustr ''abc''" ascii_db ty_godan]
    by blast
qed
section \<open>Claim C3: the cap of 2000 candidates\<close>




section \<open>Claim C6: \<open>append\<close>, \<open>remove\<close> and the ids\<close>




section \<open>Evaluation of terms and of the tokenizer\<close>

lemma bind_e_simps [simp]: "bind_e (Inl e) f = Inl e" "bind_e (Inr v) f = f v"
  by (simp_all add: bind_e_def)

lemmas term_eval = is_valid_def is_valid_fields_def Term_init_def term_of_row_def
  div_remove_def div_split_def remove_seps_def is_gobi_exists_def get_gobi_def remove_gobi_def
  pattern_remove_gobi_def pattern_is_gobi_exists_def pattern_get_gobi_def rx_match_def
  split_valid_def elem_valid_def en_valid_def gobi_valid_def get_gobis_def
  capture_def group_def lastindex_def

lemma tokyo1_eq: "tokyo1 = \<lparr> t_jp = [26481, 20140], t_kana = [12392, 12358, 12365, 12423, 12358],
     t_div0 = ustr ''2'', t_div1 = ustr ''0'', t_type = ty_meishi, t_pri = 1 \<rparr>"
  by (simp add: tokyo1_def tokyo_term_def)

lemma tokyo1_valid: "term_of_row U tokyo1 = Inr tokyo1"
  by (simp add: tokyo1_eq term_eval char_eval ty_defs)

lemma tokyo1_pattern: "re_pattern U tokyo1 = Inr (paren tokyo_jp)"
  by (simp add: tokyo1_eq re_pattern_def remove_seps_def div_remove_def tokyo_jp_def)

lemma tokyo1_match: "re_match (paren tokyo_jp) tokyo_jp = Inr (Some [(2, []), (1, tokyo_jp)])"
  by (simp add: paren_def tokyo_jp_def rx_eval)

lemma tokyo1_pre:
  "pre_to_token U tokyo1 tokyo_jp 0 =
     Inr ([tokyo_jp], [[12392, 12358, 12365, 12423, 12358]], [ustr ''2''], [])"
  by (simp add: tokyo1_eq pre_to_token_def ty_defs term_eval tokyo_jp_def rx_eval)

lemma tokyo1_tokens: "to_token0 ascii_db tokyo1 tokyo_jp = Inr [tokyo_token]"
  unfolding to_token0_def tokyo1_pre
  by (simp add: tokyo_token_def remove_seps_def div_remove_def tokyo_jp_def ascii_eval)

lemma tokyo1_keys: "gokan_keys [(l, tokyo1)] = Inr [(2, l, tokyo1)]"
  by (simp add: len_jp_gokan_def tokyo1_eq term_eval)

lemma tokyo1_search:
  "search_rows ascii_db [tokyo1] tokyo_jp = Inr (True, Some [tokyo_token], [])"
  by (simp add: tokyo1_valid tokyo1_pattern tokyo1_match tokyo1_tokens group_def)

lemma tokyo_line_custom: "rx_match pattern_custom tokyo_line = None"
  by (simp add: rx_match_def pattern_custom_def tokyo_line_def)

lemma tokyo_line_priority:
  "rx_match (pattern_priority ascii_db) tokyo_line = Some [(2, tokyo_jp), (1, ustr ''1'')]"
  by (simp add: rx_match_def pattern_priority_def tokyo_line_def tokyo_jp_def capture_def ascii_eval)

lemma tokyo_line_step:
  "line_step ascii_db df tokens tokyo_line = search_step ascii_db df tokens tokyo_jp 1"
proof -
  have d: "take 2 tokyo_line \<notin> set doubled" by (simp add: tokyo_line_def doubled_def)
  have i: "int_of_str ascii_db (ustr ''1'') = Some 1" by (simp add: ascii_eval)
  show ?thesis
    unfolding line_step_def Let_def tokyo_line_custom tokyo_line_priority
    using d i by (simp add: group_def)
qed

lemma search_priority_only:
  "search_to_token0 U df line p = search_to_token0 U (filter (\<lambda>(l, row). t_pri row = p) df) line p"
proof (cases line)
  case Nil
  then show ?thesis by (simp add: search_to_token0_def)
next
  case (Cons c cs)
  have "filter (\<lambda>(l, row). startswith (str_lower U (t_jp row)) (lower U c) \<and> t_pri row = p)
          (filter (\<lambda>(l, row). t_pri row = p) df) =
        filter (\<lambda>(l, row). startswith (str_lower U (t_jp row)) (lower U c) \<and> t_pri row = p) df"
    by (induction df) auto
  then show ?thesis using Cons by (simp add: search_to_token0_def)
qed

lemma search_filtered:
  "search_to_token0 U df (c # cs) p =
     bind_e (gokan_keys (filtered_rows U df c p)) (\<lambda>keyed.
       search_rows U (map (\<lambda>(n, l, row). row) (sort_rows keyed)) (c # cs))"
  by (simp add: search_to_token0_def filtered_rows_def)

lemma tokyo_found:
  assumes "filtered_rows ascii_db df 26481 1 = [(l, tokyo1)]"
  shows "search_to_token0 ascii_db df tokyo_jp 1 = Inr (True, Some [tokyo_token], [])"
proof -
  have "search_to_token0 ascii_db df (26481 # [20140]) 1 = Inr (True, Some [tokyo_token], [])"
    unfolding search_filtered assms tokyo1_keys
    using tokyo1_search by (simp add: sort_rows_def tokyo_jp_def)
  then show ?thesis by (simp add: tokyo_jp_def)
qed

lemma not_found:
  assumes "filtered_rows U df c p = []"
  shows "search_to_token0 U df (c # cs) p = Inr (False, None, c # cs)"
  unfolding search_filtered assms by (simp add: sort_rows_def)

lemma plain_step:
  assumes "filtered_rows ascii_db df c 0 = []" and "c \<notin> {36, 40, 41, 91, 93}"
  shows "line_step ascii_db df tokens (c # cs) = Inr (tokens @ [Token0 [c]], cs)"
proof -
  have d: "take 2 (c # cs) \<notin> set doubled" using assms(2) by (cases cs) (auto simp: doubled_def)
  have cu: "rx_match pattern_custom (c # cs) = None"
    using assms(2) by (simp add: rx_match_def pattern_custom_def)
  have pr: "rx_match (pattern_priority ascii_db) (c # cs) = None"
    using assms(2) by (simp add: rx_match_def pattern_priority_def)
  show ?thesis
    unfolding line_step_def Let_def cu pr
    using d assms(2) by (simp add: search_step_def not_found[OF assms(1)])
qed


lemma search_empty: "search_to_token0 U df [] p = Inl IndexError"
  by (simp add: search_to_token0_def)

lemma search_step_empty: "search_step U df tokens [] p = Inl IndexError"
  by (simp add: search_step_def search_empty)

lemma directive_step: "line_step ascii_db df tokens directive_line = Inl IndexError"
proof -
  have d: "take 2 directive_line \<notin> set doubled" by (simp add: directive_line_def doubled_def)
  have c: "rx_match pattern_custom directive_line = None"
    by (simp add: rx_match_def pattern_custom_def directive_line_def)
  have p: "rx_match (pattern_priority ascii_db) directive_line = Some [(2, []), (1, ustr ''1'')]"
    by (simp add: rx_match_def pattern_priority_def directive_line_def capture_def ascii_eval)
  have i: "int_of_str ascii_db (ustr ''1'') = Some 1" by (simp add: ascii_eval)
  show ?thesis
    unfolding line_step_def Let_def c p
    using d i by (simp add: group_def search_step_empty)
qed

lemma quadruple_match:
  "rx_match pattern_custom quadruple_line =
     Some [(5, []), (4, ustr ''0''), (3, ustr ''9''), (2, ustr ''b''), (1, ustr ''a'')]"
  by (simp add: rx_match_def pattern_custom_def custom_field_def quadruple_line_def capture_def)

lemma quadruple_invalid:
  "Term_init U (CStr (ustr ''a'')) (CStr (ustr ''b'')) (CStr (ustr ''9'')) (CStr (ustr ''0''))
     (CStr ty_koyuu) 0 = Inl ValueError"
  by (simp add: term_eval ty_defs)

lemma quadruple_step: "line_step U df tokens quadruple_line = Inl IndexError"
proof -
  have d: "take 2 quadruple_line \<notin> set doubled" by (simp add: quadruple_line_def doubled_def)
  have t: "custom_tokens U [(5, []), (4, ustr ''0''), (3, ustr ''9''), (2, ustr ''b''), (1, ustr ''a'')]
      = Inl ValueError"
    unfolding custom_tokens_def using quadruple_invalid[of U] by (simp add: group_def)
  show ?thesis
    unfolding line_step_def Let_def quadruple_match
    using d t by (simp add: group_def search_step_empty)
qed


section \<open>Claim C8: the priority directive\<close>

text \<open>Claim C8. On the line \<open>[1]\<close> followed by the spelling of \<open>Tokyo\<close>, one iteration of
  \<open>line_to_tokens0\<close> consumes the directive without a token and goes on to the dictionary
  search of the spelling at priority 1, whatever the dictionary and the tokens so far.
  A search at a priority only looks at the rows of that priority: it gives the same
  result on the dictionary restricted to them. When the rows of priority 1 that start
  with the first character of the spelling are the noun \<open>Tokyo\<close> alone, the line is
  tokenized into the single token of the noun. When no row of priority 0 starts with
  either character of the spelling (the noun exists at priority 1 only), the spelling
  without a directive is not matched: it is tokenized into its two characters.\<close>

theorem priority_directive:
  "line_step ascii_db df tokens tokyo_line = search_step ascii_db df tokens tokyo_jp 1 \<and>
   search_to_token0 U df line p =
     search_to_token0 U (filter (\<lambda>(l, row). t_pri row = p) df) line p \<and>
   (filtered_rows ascii_db df 26481 1 = [(l, tokyo1)] \<longrightarrow>
      line_to_tokens0 ascii_db df (Suc n) tokyo_line = Inr (Some [tokyo_token])) \<and>
   (filtered_rows ascii_db df 26481 0 = [] \<and> filtered_rows ascii_db df 20140 0 = [] \<longrightarrow>
      line_to_tokens0 ascii_db df (Suc (Suc n)) tokyo_jp =
        Inr (Some [Token0 [26481], Token0 [20140]]))"
proof (intro conjI impI)
  show "line_step ascii_db df tokens tokyo_line = search_step ascii_db df tokens tokyo_jp 1"
    by (rule tokyo_line_step)
  show "search_to_token0 U df line p =
     search_to_token0 U (filter (\<lambda>(l, row). t_pri row = p) df) line p"
    by (rule search_priority_only)
next
  assume a: "filtered_rows ascii_db df 26481 1 = [(l, tokyo1)]"
  have "line_loop ascii_db df (Suc n) [] (91 # 49 # 93 # tokyo_jp) = Inr (Some [tokyo_token])"
    unfolding line_loop.simps
    using tokyo_line_step[of df "[]"] tokyo_found[OF a]
    by (simp add: tokyo_line_def search_step_def)
  then show "line_to_tokens0 ascii_db df (Suc n) tokyo_line = Inr (Some [tokyo_token])"
    by (simp add: line_to_tokens0_def tokyo_line_def)
next
  assume a: "filtered_rows ascii_db df 26481 0 = [] \<and> filtered_rows ascii_db df 20140 0 = []"
  have s1: "line_step ascii_db df [] (26481 # [20140]) = Inr ([] @ [Token0 [26481]], [20140])"
    by (rule plain_step) (use a in simp_all)
  have s2: "line_step ascii_db df [Token0 [26481]] (20140 # []) =
      Inr ([Token0 [26481]] @ [Token0 [20140]], [])"
    by (rule plain_step) (use a in simp_all)
  show "line_to_tokens0 ascii_db df (Suc (Suc n)) tokyo_jp =
        Inr (Some [Token0 [26481], Token0 [20140]])"
    by (simp add: line_to_tokens0_def tokyo_jp_def s1 s2)
qed

text \<open>The theorem at the dictionary that holds the noun at priority 1 and nothing
  else.\<close>

theorem priority_directive_witness:
  "filtered_rows ascii_db [(0, tokyo1)] 26481 1 = [(0, tokyo1)] \<and>
   line_to_tokens0 ascii_db [(0, tokyo1)] (Suc 0) tokyo_line = Inr (Some [tokyo_token]) \<and>
   filtered_rows ascii_db [(0, tokyo1)] 26481 0 = [] \<and>
   filtered_rows ascii_db [(0, tokyo1)] 20140 0 = [] \<and>
   line_to_tokens0 ascii_db [(0, tokyo1)] (Suc (Suc 0)) tokyo_jp =
     Inr (Some [Token0 [26481], Token0 [20140]])"
proof -
  have A: "filtered_rows ascii_db [(0, tokyo1)] 26481 1 = [(0, tokyo1)]"
    by (simp add: filtered_rows_def tokyo1_eq str_lower_def startswith_def ascii_eval)
  have B: "filtered_rows ascii_db [(0, tokyo1)] 26481 0 = []"
    by (simp add: filtered_rows_def tokyo1_eq)
  have C: "filtered_rows ascii_db [(0, tokyo1)] 20140 0 = []"
    by (simp add: filtered_rows_def tokyo1_eq)
  note T = priority_directive[where df = "[(0, tokyo1)]" and l = 0 and n = 0]
  have D: "line_to_tokens0 ascii_db [(0, tokyo1)] (Suc 0) tokyo_line = Inr (Some [tokyo_token])"
    using T[THEN conjunct2, THEN conjunct2, THEN conjunct1] A by blast
  have E: "line_to_tokens0 ascii_db [(0, tokyo1)] (Suc (Suc 0)) tokyo_jp =
     Inr (Some [Token0 [26481], Token0 [20140]])"
    using T[THEN conjunct2, THEN conjunct2, THEN conjunct2] B C by blast
  from A D B C E show ?thesis by (intro conjI)
qed

section \<open>Claim C1: lines on which the tokenizer raises\<close>

text \<open>Claim C1 says that \<open>line_to_tokens0\<close> returns for every line, also for a line that
  ends in a priority directive or in a failed inline quadruple. The code does not: after
  a directive, and after a quadruple whose term is invalid, the loop goes on to
  \<open>search_to_token0\<close> with the rest of the line, which is empty at the end of the line,
  and \<open>search_to_token0\<close> reads \<open>line[0]\<close>. On the line \<open>[1]\<close> and on the line
  \<open>(a;b;9;0)\<close> the tokenizer raises \<open>IndexError\<close>, with every dictionary.\<close>

theorem line_to_tokens0_raises:
  "search_to_token0 U df [] p = Inl IndexError \<and>
   line_to_tokens0 ascii_db df (Suc n) directive_line = Inl IndexError \<and>
   line_to_tokens0 U df (Suc n) quadruple_line = Inl IndexError"
proof (intro conjI)
  show "search_to_token0 U df [] p = Inl IndexError" by (rule search_empty)
  have "line_loop ascii_db df (Suc n) [] (91 # 49 # [93]) = Inl IndexError"
    unfolding line_loop.simps using directive_step[of df "[]"] by (simp add: directive_line_def)
  then show "line_to_tokens0 ascii_db df (Suc n) directive_line = Inl IndexError"
    by (simp add: line_to_tokens0_def directive_line_def)
  have "line_loop U df (Suc n) [] (40 # ustr ''a;b;9;0)'') = Inl IndexError"
    unfolding line_loop.simps using quadruple_step[of U df "[]"] by (simp add: quadruple_line_def)
  then show "line_to_tokens0 U df (Suc n) quadruple_line = Inl IndexError"
    by (simp add: line_to_tokens0_def quadruple_line_def)
qed

text \<open>The theorem at the empty dictionary and at the dictionary of the noun \<open>Tokyo\<close>.\<close>

theorem line_to_tokens0_raises_witness:
  "line_to_tokens0 ascii_db [] (Suc 0) directive_line = Inl IndexError \<and>
   line_to_tokens0 ascii_db [(0, tokyo1)] (Suc 9) directive_line = Inl IndexError \<and>
   line_to_tokens0 ascii_db [] (Suc 0) quadruple_line = Inl IndexError"
  using line_to_tokens0_raises[of ascii_db "[]" 0 0]
    line_to_tokens0_raises[of ascii_db "[(0, tokyo1)]" 0 9] by simp

section \<open>Claim C4: a template that does not match its own spelling\<close>

text \<open>Claim C4 says that the template of a valid term matches the spelling of the
  term without separators. The characters \<open>. - +\<close> are allowed in the spelling of a
  noun, and \<open>re_pattern\<close> escapes the characters of a regular expression for a proper
  noun only. The noun spelled \<open>1+2\<close> is a valid term; its template is \<open>^(1+2)(.*)$\<close>, in
  which \<open>+\<close> repeats the digit 1, and the template does not match \<open>1+2\<close>. The same term
  as a proper noun is valid too, its template is \<open>^(1\+2)(.*)$\<close> and matches.\<close>

theorem re_pattern_plus:
  "term_of_row ascii_db plus_term = Inr plus_term \<and>
   remove_seps (t_jp plus_term) = plus_jp \<and>
   re_pattern U plus_term = Inr (paren plus_jp) \<and>
   re_match (paren plus_jp) (remove_seps (t_jp plus_term)) = Inr None \<and>
   term_of_row ascii_db plus_koyuu = Inr plus_koyuu \<and>
   re_pattern U plus_koyuu = Inr (paren [49, 92, 43, 50]) \<and>
   re_match (paren [49, 92, 43, 50]) (remove_seps (t_jp plus_koyuu)) =
     Inr (Some [(2, []), (1, plus_jp)])"
proof (intro conjI)
  show "term_of_row ascii_db plus_term = Inr plus_term"
    by (simp add: plus_term_def plus_jp_def term_eval char_eval ty_defs ascii_eval)
  show r: "remove_seps (t_jp plus_term) = plus_jp"
    by (simp add: plus_term_def plus_jp_def remove_seps_def div_remove_def)
  show "re_pattern U plus_term = Inr (paren plus_jp)"
    using r by (simp add: re_pattern_def) (simp add: plus_term_def)
  show "re_match (paren plus_jp) (remove_seps (t_jp plus_term)) = Inr None"
    unfolding r by (simp add: paren_def plus_jp_def rx_eval)
  show "term_of_row ascii_db plus_koyuu = Inr plus_koyuu"
    by (simp add: plus_koyuu_def plus_term_def plus_jp_def term_eval char_eval ty_defs ascii_eval)
  have k: "remove_seps (t_jp plus_koyuu) = plus_jp"
    by (simp add: plus_koyuu_def plus_term_def plus_jp_def remove_seps_def div_remove_def)
  have e: "escape_dec plus_jp = [49, 92, 43, 50]"
    by (simp add: escape_dec_def dec_chars_def replace_char_def plus_jp_def)
  show "re_pattern U plus_koyuu = Inr (paren [49, 92, 43, 50])"
    using k e by (simp add: re_pattern_def) (simp add: plus_koyuu_def plus_term_def ty_defs)
  show "re_match (paren [49, 92, 43, 50]) (remove_seps (t_jp plus_koyuu)) =
     Inr (Some [(2, []), (1, plus_jp)])"
    unfolding k by (simp add: paren_def plus_jp_def rx_eval)
qed

text \<open>The template of the noun, with the tables of ASCII.\<close>

theorem re_pattern_plus_witness:
  "re_pattern ascii_db plus_term = Inr (paren plus_jp) \<and>
   re_match (paren plus_jp) (remove_seps (t_jp plus_term)) = Inr None"
  using re_pattern_plus[of ascii_db] by blast

end
